theory Spec2Isabelle
  imports Complex_Main "HOL-Library.Word"
begin

section \<open>JavaScript numbers\<close>

text \<open>
  The library computes on JavaScript numbers. They are modelled as the real numbers
  extended by the two infinities and \<open>NaN\<close>, with the IEEE 754 rules for the special
  values and exact arithmetic on the finite ones: the operations below do not round,
  overflow or underflow. The rounding of binary64 is the function \<open>binary64\<close> further
  down, and the interpolator is given twice: in exact arithmetic, and with every
  operation rounded. The sign of zero is not modelled: a zero divisor is read as
  \<open>+0\<close>. On strictly increasing knots the divisors of the interpolator are differences
  of knots in increasing order, products of such differences, a difference of two such
  products with the larger one first, and a sum of absolute values: when one of them is
  zero in binary64, it is \<open>+0\<close> there too. A hole of an array and
  \<open>undefined\<close> read in an arithmetic expression or a comparison are \<open>NaN\<close>
  (JavaScript's \<open>ToNumber(undefined)\<close>).
\<close>

datatype number = NaN | NInf | PInf | Fin real

text \<open>The sign of a number that is not \<open>NaN\<close>, as a real.\<close>

fun sign :: "number \<Rightarrow> real" where
  "sign NaN = 0"
| "sign NInf = -1"
| "sign PInf = 1"
| "sign (Fin a) = sgn a"

definition inf_of_sign :: "real \<Rightarrow> number" where
  "inf_of_sign s = (if s = 0 then NaN else if 0 < s then PInf else NInf)"

instantiation number :: "{uminus, plus, minus, times, inverse, abs, ord}"
begin

fun uminus_number :: "number \<Rightarrow> number" where
  "uminus_number NaN = NaN"
| "uminus_number NInf = PInf"
| "uminus_number PInf = NInf"
| "uminus_number (Fin a) = Fin (- a)"

fun plus_number :: "number \<Rightarrow> number \<Rightarrow> number" where
  "plus_number NaN y = NaN"
| "plus_number x NaN = NaN"
| "plus_number (Fin a) (Fin b) = Fin (a + b)"
| "plus_number (Fin a) y = y"
| "plus_number x (Fin b) = x"
| "plus_number x y = (if x = y then x else NaN)"

definition minus_number :: "number \<Rightarrow> number \<Rightarrow> number" where
  "minus_number x y = x + (- y)"

fun times_number :: "number \<Rightarrow> number \<Rightarrow> number" where
  "times_number NaN y = NaN"
| "times_number x NaN = NaN"
| "times_number (Fin a) (Fin b) = Fin (a * b)"
| "times_number x y = inf_of_sign (sign x * sign y)"

fun divide_number :: "number \<Rightarrow> number \<Rightarrow> number" where
  "divide_number NaN y = NaN"
| "divide_number x NaN = NaN"
| "divide_number (Fin a) (Fin b) = (if b = 0 then inf_of_sign (sgn a) else Fin (a / b))"
| "divide_number (Fin a) y = Fin 0"
| "divide_number x (Fin b) = inf_of_sign (sign x * (if b < 0 then -1 else 1))"
| "divide_number x y = NaN"

text \<open>The division sign belongs to the class of \<open>inverse\<close>; the library never takes one.\<close>

definition inverse_number :: "number \<Rightarrow> number" where
  "inverse_number x = divide (Fin 1) x"

fun abs_number :: "number \<Rightarrow> number" where
  "abs_number NaN = NaN"
| "abs_number NInf = PInf"
| "abs_number PInf = PInf"
| "abs_number (Fin a) = Fin \<bar>a\<bar>"

fun less_number :: "number \<Rightarrow> number \<Rightarrow> bool" where
  "less_number NaN y = False"
| "less_number x NaN = False"
| "less_number (Fin a) (Fin b) = (a < b)"
| "less_number x NInf = False"
| "less_number PInf y = False"
| "less_number x y = True"

text \<open>JavaScript's \<open><=\<close>: false as soon as one side is \<open>NaN\<close>.\<close>

definition less_eq_number :: "number \<Rightarrow> number \<Rightarrow> bool" where
  "less_eq_number x y = (x < y \<or> (x \<noteq> NaN \<and> x = y))"

instance ..

end

text \<open>JavaScript's \<open>==\<close> on two numbers: \<open>NaN\<close> equals nothing.\<close>

definition js_eq :: "number \<Rightarrow> number \<Rightarrow> bool" where
  "js_eq x y = (x \<noteq> NaN \<and> x = y)"

text \<open>\<open>Number.EPSILON\<close> is \<open>2\<^sup>-\<^sup>5\<^sup>2\<close>.\<close>

definition EPSILON :: number where
  "EPSILON = Fin (1 / 2 ^ 52)"

section \<open>Arrays and counted loops\<close>

text \<open>
  An array is a list. Reading outside it gives \<open>undefined\<close>, which every use in this
  library turns into \<open>NaN\<close>; writing at or beyond its length extends it, leaving holes.
  \<open>new Array(n)\<close> is \<open>n\<close> holes.
\<close>

definition js_nth :: "number list \<Rightarrow> nat \<Rightarrow> number" where
  "js_nth a i = (if i < length a then a ! i else NaN)"

definition store :: "'a \<Rightarrow> 'a list \<Rightarrow> nat \<Rightarrow> 'a \<Rightarrow> 'a list" where
  "store hole a i v =
     (if i < length a then a[i := v] else a @ replicate (i - length a) hole @ [v])"

definition js_upd :: "number list \<Rightarrow> nat \<Rightarrow> number \<Rightarrow> number list" where
  "js_upd a i v = store NaN a i v"

definition new_Array :: "nat \<Rightarrow> number list" where
  "new_Array n = replicate n NaN"

text \<open>
  \<open>for (var i = lo; i < hi; i++) body\<close>, on the state \<open>s\<close> that the body updates. The
  loops of this library write only below their bound, so the bound, an array length in
  the source, is the same at every test.
\<close>

function for_loop :: "nat \<Rightarrow> nat \<Rightarrow> (nat \<Rightarrow> 's \<Rightarrow> 's) \<Rightarrow> 's \<Rightarrow> 's" where
  "for_loop i hi body s = (if i < hi then for_loop (Suc i) hi body (body i s) else s)"
  by pat_completeness auto
termination
  by (relation "measure (\<lambda>(i, hi, body, s). hi - i)") auto

declare for_loop.simps [simp del]

section \<open>exceptions.js\<close>

text \<open>The five classes the module exports, and the module as its importers see it.\<close>

datatype exception_class =
    NullArgumentException
  | DimensionMismatchException
  | NumberIsTooSmallException
  | OutOfRangeException
  | MathInternalError

definition E :: "string \<Rightarrow> exception_class option" where
  "E = map_of
     [(''NullArgumentException'', NullArgumentException),
      (''DimensionMismatchException'', DimensionMismatchException),
      (''NumberIsTooSmallException'', NumberIsTooSmallException),
      (''OutOfRangeException'', OutOfRangeException),
      (''MathInternalError'', MathInternalError)]"

text \<open>
  What a \<open>throw\<close> of the library can throw: an instance of an exported class, the
  \<open>TypeError\<close> of the language itself, or the plain \<open>Error\<close> of the binary search.
  Messages are left out.
\<close>

datatype thrown = Instance exception_class | TypeError | Error

text \<open>
  \<open>new E.name(...)\<close>: a name the module does not export is \<open>undefined\<close>, and
  \<open>new undefined(...)\<close> is a \<open>TypeError\<close>.
\<close>

definition new_E :: "string \<Rightarrow> thrown" where
  "new_E name = (case E name of Some c \<Rightarrow> Instance c | None \<Rightarrow> TypeError)"

section \<open>util.js\<close>

definition INCREASING :: int where
  "INCREASING = 0"

definition DECREASING :: int where
  "DECREASING = 1"

text \<open>
  Indices and lengths are integers without bound, except under the shift:
  \<open>n >>> 1\<close>, for an integer \<open>n\<close>, is the unsigned 32-bit value of \<open>n\<close>, shifted.
\<close>

definition ushr1 :: "int \<Rightarrow> int" where
  "ushr1 n = uint (drop_bit 1 (word_of_int n :: 32 word))"

text \<open>
  The loop of \<open>binarySearch\<close>. Beyond \<open>2\<^sup>3\<^sup>1\<close> elements the shift wraps around and the
  loop need not end, so its result is an option: \<open>None\<close> is a search that never returns.
\<close>

partial_function (option) binarySearch_while ::
  "number list \<Rightarrow> number \<Rightarrow> int \<Rightarrow> int \<Rightarrow> (thrown + int) option" where
  "binarySearch_while a key low high =
     (if low \<le> high then
        (let mid = ushr1 (low + high);
             midVal = js_nth a (nat mid)
         in if midVal < key then binarySearch_while a key (mid + 1) high
            else if midVal > key then binarySearch_while a key low (mid - 1)
            else if js_eq midVal key then Some (Inr mid)
            else Some (Inl Error))
      else Some (Inr (- (low + 1))))"

declare binarySearch_while.simps [code]

definition binarySearch :: "number list \<Rightarrow> number \<Rightarrow> (thrown + int) option" where
  "binarySearch a key = binarySearch_while a key 0 (int (length a) - 1)"

text \<open>
  The loop of \<open>checkOrder\<close>, from \<open>index\<close> on: the index at which it stops (at a
  \<open>break\<close>, or at \<open>max\<close>), or what the \<open>default\<close> case throws.
\<close>

function checkOrder_for ::
  "number list \<Rightarrow> int \<Rightarrow> bool \<Rightarrow> number \<Rightarrow> nat \<Rightarrow> thrown + nat" where
  "checkOrder_for val dir strict previous index =
     (if index < length val then
        (if dir = INCREASING then
           (if strict then
              (if val ! index \<le> previous then Inr index
               else checkOrder_for val dir strict (val ! index) (Suc index))
            else
              (if val ! index < previous then Inr index
               else checkOrder_for val dir strict (val ! index) (Suc index)))
         else if dir = DECREASING then
           (if strict then
              (if val ! index \<ge> previous then Inr index
               else checkOrder_for val dir strict (val ! index) (Suc index))
            else
              (if val ! index > previous then Inr index
               else checkOrder_for val dir strict (val ! index) (Suc index)))
         else Inl (new_E ''MathInternalError''))
      else Inr index)"
  by pat_completeness auto
termination
  by (relation "measure (\<lambda>(val, dir, strict, previous, index). length val - index)") auto

declare checkOrder_for.simps [simp del]

text \<open>
  \<open>checkOrder(val, dir, strict, abort)\<close>. An argument left out is \<open>undefined\<close>:
  \<open>None\<close> for \<open>dir\<close>, \<open>False\<close> for the two flags, which the source only tests for
  truth. A \<open>dir\<close> that is falsy (\<open>undefined\<close> or \<open>0\<close>) becomes \<open>INCREASING\<close>.
\<close>

definition checkOrder ::
  "number list \<Rightarrow> int option \<Rightarrow> bool \<Rightarrow> bool \<Rightarrow> thrown + bool" where
  "checkOrder val dir strict abort =
     (let dir' = (case dir of None \<Rightarrow> INCREASING
                  | Some d \<Rightarrow> if d = 0 then INCREASING else d);
          previous = js_nth val 0;
          max = length val
      in case checkOrder_for val dir' strict previous 1 of
           Inl e \<Rightarrow> Inl e
         | Inr index \<Rightarrow>
             if index = max then Inr True
             else if abort then Inl (new_E ''NonMonotonicSequenceException'')
             else Inr False)"

section \<open>The interpolator (class SplineInterpolatorAkima)\<close>

definition MINIMUM_NUMBER_POINTS :: nat where
  "MINIMUM_NUMBER_POINTS = 5"

subsection \<open>evaluatePolynomial\<close>

function evaluatePolynomial_for :: "number list \<Rightarrow> number \<Rightarrow> int \<Rightarrow> number \<Rightarrow> number" where
  "evaluatePolynomial_for c x i v =
     (if 0 \<le> i then evaluatePolynomial_for c x (i - 1) (x * v + js_nth c (nat i)) else v)"
  by pat_completeness auto
termination
  by (relation "measure (\<lambda>(c, x, i, v). nat (i + 1))") auto

declare evaluatePolynomial_for.simps [simp del]

definition evaluatePolynomial :: "number list \<Rightarrow> number \<Rightarrow> number" where
  "evaluatePolynomial c x =
     (let n = length c
      in if n = 0 then Fin 0
         else evaluatePolynomial_for c x (int n - 2) (js_nth c (n - 1)))"

subsection \<open>evaluatePolynomialSegment\<close>

text \<open>
  A row of the coefficient table is \<open>Some\<close> array, or \<open>None\<close> for a hole or a read
  outside the table: \<open>evaluatePolynomial(undefined, ...)\<close> fails at \<open>c.length\<close> with a
  \<open>TypeError\<close>.
\<close>

definition evaluatePolynomialSegment ::
  "number list \<Rightarrow> number list option list \<Rightarrow> number \<Rightarrow> (thrown + number) option" where
  "evaluatePolynomialSegment xVals segmentCoeffs x =
     (case binarySearch xVals x of
        None \<Rightarrow> None
      | Some (Inl e) \<Rightarrow> Some (Inl e)
      | Some (Inr i0) \<Rightarrow>
          (let i1 = (if i0 < 0 then - i0 - 2 else i0);
               i = nat (max 0 (min i1 (int (length segmentCoeffs) - 1)))
           in case (if i < length segmentCoeffs then segmentCoeffs ! i else None) of
                None \<Rightarrow> Some (Inl TypeError)
              | Some c \<Rightarrow> Some (Inr (evaluatePolynomial c (x - js_nth xVals i)))))"

subsection \<open>differentiateThreePoint\<close>

definition differentiateThreePoint ::
  "number list \<Rightarrow> number list \<Rightarrow> nat \<Rightarrow> nat \<Rightarrow> nat \<Rightarrow> nat \<Rightarrow> number" where
  "differentiateThreePoint xvals yvals indexOfDifferentiation indexOfFirstSample
       indexOfSecondsample indexOfThirdSample =
     (let x0 = js_nth yvals indexOfFirstSample;
          x1 = js_nth yvals indexOfSecondsample;
          x2 = js_nth yvals indexOfThirdSample;
          t = js_nth xvals indexOfDifferentiation - js_nth xvals indexOfFirstSample;
          t1 = js_nth xvals indexOfSecondsample - js_nth xvals indexOfFirstSample;
          t2 = js_nth xvals indexOfThirdSample - js_nth xvals indexOfFirstSample;
          a = (x2 - x0 - (t2 / t1 * (x1 - x0))) / (t2 * t2 - t1 * t2);
          b = (x1 - x0 - a * t1 * t1) / t1
      in (Fin 2 * a * t) + b)"

subsection \<open>interpolateHermiteSorted\<close>

text \<open>
  The loop's state is the scratch array \<open>coefficients\<close>, shared by all iterations, and
  the table \<open>allCoefficients\<close>; each row of the table is a copy (\<open>slice(0)\<close>) of the
  scratch array as it stands at the end of the iteration.
\<close>

definition hermite_body ::
  "number list \<Rightarrow> number list \<Rightarrow> number list \<Rightarrow> nat \<Rightarrow>
   number list \<times> number list option list \<Rightarrow> number list \<times> number list option list" where
  "hermite_body xvals yvals firstDerivatives i st =
     (let coefficients = fst st;
          allCoefficients = snd st;
          w = js_nth xvals (i + 1) - js_nth xvals i;
          w2 = w * w;
          yv = js_nth yvals i;
          yvP = js_nth yvals (i + 1);
          fd = js_nth firstDerivatives i;
          fdP = js_nth firstDerivatives (i + 1);
          coefficients = js_upd coefficients 0 yv;
          coefficients = js_upd coefficients 1 (js_nth firstDerivatives i);
          coefficients = js_upd coefficients 2 ((Fin 3 * (yvP - yv) / w - Fin 2 * fd - fdP) / w);
          coefficients = js_upd coefficients 3 ((Fin 2 * (yv - yvP) / w + fd + fdP) / w2)
      in (coefficients, store None allCoefficients i (Some coefficients)))"

definition interpolateHermiteSorted ::
  "number list \<Rightarrow> number list \<Rightarrow> number list \<Rightarrow> thrown + number list option list" where
  "interpolateHermiteSorted xvals yvals firstDerivatives =
     (if length xvals \<noteq> length yvals then Inl (new_E ''DimensionMismatchException'')
      else if length xvals \<noteq> length firstDerivatives
        then Inl (new_E ''DimensionMismatchException'')
      else if length xvals < 2 then Inl (new_E ''NumberIsTooSmallException'')
      else
        (let size = length xvals - 1
         in Inr (snd (for_loop 0 size (hermite_body xvals yvals firstDerivatives)
                        ([], replicate size None)))))"

subsection \<open>interpolate\<close>

text \<open>
  The three arrays that \<open>interpolate\<close> builds once its guards have passed (so
  \<open>xvals.length\<close> is at least 5 and the subtractions on lengths stay in the naturals):
  \<open>differences\<close> and \<open>weights\<close> (lines 99 to 110) and \<open>firstDerivatives\<close> (lines 113
  to 132).
\<close>

definition differences :: "number list \<Rightarrow> number list \<Rightarrow> number list" where
  "differences xvals yvals =
     (let numberOfDiffAndWeightElements = length xvals - 1
      in for_loop 0 numberOfDiffAndWeightElements
           (\<lambda>i d. js_upd d i
              ((js_nth yvals (i + 1) - js_nth yvals i) / (js_nth xvals (i + 1) - js_nth xvals i)))
           (new_Array numberOfDiffAndWeightElements))"

definition weights :: "number list \<Rightarrow> number list \<Rightarrow> number list" where
  "weights xvals yvals =
     (let numberOfDiffAndWeightElements = length xvals - 1;
          d = differences xvals yvals
      in for_loop 1 numberOfDiffAndWeightElements
           (\<lambda>i w. js_upd w i (\<bar>js_nth d i - js_nth d (i - 1)\<bar>))
           (new_Array numberOfDiffAndWeightElements))"

definition firstDerivatives_body ::
  "number list \<Rightarrow> number list \<Rightarrow> number list \<Rightarrow> nat \<Rightarrow> number list \<Rightarrow> number list" where
  "firstDerivatives_body xvals d w i fd =
     (let wP = js_nth w (i + 1);
          wM = js_nth w (i - 1)
      in if \<bar>wP\<bar> < EPSILON \<and> \<bar>wM\<bar> < EPSILON then
           (let xv = js_nth xvals i;
                xvP = js_nth xvals (i + 1);
                xvM = js_nth xvals (i - 1)
            in js_upd fd i
                 ((((xvP - xv) * js_nth d (i - 1)) + ((xv - xvM) * js_nth d i)) / (xvP - xvM)))
         else js_upd fd i (((wP * js_nth d (i - 1)) + (wM * js_nth d i)) / (wP + wM)))"

definition firstDerivatives :: "number list \<Rightarrow> number list \<Rightarrow> number list" where
  "firstDerivatives xvals yvals =
     (let n = length xvals;
          d = differences xvals yvals;
          w = weights xvals yvals;
          fd = for_loop 2 (n - 2) (firstDerivatives_body xvals d w) (new_Array n);
          fd = js_upd fd 0 (differentiateThreePoint xvals yvals 0 0 1 2);
          fd = js_upd fd 1 (differentiateThreePoint xvals yvals 1 0 1 2);
          fd = js_upd fd (n - 2)
                 (differentiateThreePoint xvals yvals (n - 2) (n - 3) (n - 2) (n - 1));
          fd = js_upd fd (n - 1)
                 (differentiateThreePoint xvals yvals (n - 1) (n - 3) (n - 2) (n - 1))
      in fd)"

text \<open>
  \<open>interpolate(xvals, yvals)\<close>; \<open>None\<close> is \<open>null\<close> or \<open>undefined\<close>. The call
  \<open>checkOrder(xvals)\<close> passes one argument: \<open>dir\<close>, \<open>strict\<close> and \<open>abort\<close> are
  \<open>undefined\<close>, and its result is dropped.
\<close>

definition interpolate ::
  "number list option \<Rightarrow> number list option \<Rightarrow> thrown + number list option list" where
  "interpolate xvals yvals =
     (case (xvals, yvals) of
        (Some xv, Some yv) \<Rightarrow>
          if length xv \<noteq> length yv then Inl (new_E ''DimensionMismatchException'')
          else if length xv < MINIMUM_NUMBER_POINTS then Inl (new_E ''NumberIsTooSmallException'')
          else (case checkOrder xv None False False of
                  Inl e \<Rightarrow> Inl e
                | Inr ordered \<Rightarrow> interpolateHermiteSorted xv yv (firstDerivatives xv yv))
      | _ \<Rightarrow> Inl (new_E ''NullArgumentException''))"

subsection \<open>createInterpolator\<close>

text \<open>
  The caller's arrays live in a store, at addresses; the caller can write to them at any
  time. \<open>slice(0)\<close> allocates a copy at a fresh address. The closure that
  \<open>createInterpolator\<close> returns holds the address of its copy of the knots and the
  coefficient table, which \<open>interpolate\<close> allocated and returned to it alone.
\<close>

type_synonym addr = nat

record heap =
  cells :: "addr \<Rightarrow> number list"
  fresh :: addr

definition slice0 :: "heap \<Rightarrow> addr \<Rightarrow> heap \<times> addr" where
  "slice0 h r = (h\<lparr>cells := (cells h)(fresh h := cells h r), fresh := Suc (fresh h)\<rparr>, fresh h)"

record interpolator =
  xValsCopy :: addr
  segmentCoeffs :: "number list option list"

definition createInterpolator ::
  "heap \<Rightarrow> addr option \<Rightarrow> addr option \<Rightarrow> thrown + heap \<times> interpolator" where
  "createInterpolator h xVals yVals =
     (case interpolate (map_option (cells h) xVals) (map_option (cells h) yVals) of
        Inl e \<Rightarrow> Inl e
      | Inr coeffs \<Rightarrow>
          (case xVals of
             None \<Rightarrow> Inl TypeError
           | Some r \<Rightarrow>
               (let (h', copy) = slice0 h r
                in Inr (h', \<lparr>xValsCopy = copy, segmentCoeffs = coeffs\<rparr>))))"

text \<open>Calling the returned function with \<open>x\<close>, in the store as it is at the call.\<close>

definition call :: "heap \<Rightarrow> interpolator \<Rightarrow> number \<Rightarrow> (thrown + number) option" where
  "call h f x = evaluatePolynomialSegment (cells h (xValsCopy f)) (segmentCoeffs f) x"

text \<open>The caller's assignment \<open>a[i] = v\<close> to the array at address \<open>r\<close>.\<close>

definition assign :: "heap \<Rightarrow> addr \<Rightarrow> nat \<Rightarrow> number \<Rightarrow> heap" where
  "assign h r i v = h\<lparr>cells := (cells h)(r := js_upd (cells h r) i v)\<rparr>"

section \<open>The interpolator in binary64\<close>

text \<open>
  Rounding to the nearest integer, ties to the even one, and rounding a number to
  binary64: a real is rounded to the nearest multiple of \<open>2\<^sup>e\<^sup>-\<^sup>5\<^sup>2\<close>, where \<open>e\<close> is its
  binary exponent, at least \<open>-1022\<close> (below it the subnormal numbers are the multiples of
  \<open>2\<^sup>-\<^sup>1\<^sup>0\<^sup>7\<^sup>4\<close>), ties to the even multiple; a result of magnitude \<open>2\<^sup>1\<^sup>0\<^sup>2\<^sup>4\<close> or more is
  the infinity of its sign.
\<close>

definition rne :: "real \<Rightarrow> int" where
  "rne x =
     (let f = \<lfloor>x\<rfloor>; d = x - of_int f
      in if d < 1 / 2 then f else if 1 / 2 < d then f + 1 else if even f then f else f + 1)"

definition binary64 :: "number \<Rightarrow> number" where
  "binary64 x =
     (case x of
        Fin r \<Rightarrow>
          if r = 0 then Fin 0
          else
            (let e = max \<lfloor>log 2 \<bar>r\<bar>\<rfloor> (- 1022);
                 q = 2 powr of_int (e - 52);
                 v = of_int (rne (r / q)) * q
             in if 2 ^ 1024 \<le> \<bar>v\<bar> then inf_of_sign r else Fin v)
      | _ \<Rightarrow> x)"

text \<open>
  The functions of the interpolator once more, with the result of every addition,
  subtraction, multiplication and division passed through \<open>rnd\<close>. With \<open>binary64\<close> for
  \<open>rnd\<close> they compute as JavaScript does; with the identity they are the functions
  above. \<open>Math.abs\<close>, the comparisons and the constants do not round.
\<close>

function evaluatePolynomial_for_r ::
  "(number \<Rightarrow> number) \<Rightarrow> number list \<Rightarrow> number \<Rightarrow> int \<Rightarrow> number \<Rightarrow> number" where
  "evaluatePolynomial_for_r rnd c x i v =
     (if 0 \<le> i
      then evaluatePolynomial_for_r rnd c x (i - 1) (rnd (rnd (x * v) + js_nth c (nat i)))
      else v)"
  by pat_completeness auto
termination
  by (relation "measure (\<lambda>(rnd, c, x, i, v). nat (i + 1))") auto

declare evaluatePolynomial_for_r.simps [simp del]

definition evaluatePolynomial_r :: "(number \<Rightarrow> number) \<Rightarrow> number list \<Rightarrow> number \<Rightarrow> number" where
  "evaluatePolynomial_r rnd c x =
     (let n = length c
      in if n = 0 then Fin 0
         else evaluatePolynomial_for_r rnd c x (int n - 2) (js_nth c (n - 1)))"

definition evaluatePolynomialSegment_r ::
  "(number \<Rightarrow> number) \<Rightarrow> number list \<Rightarrow> number list option list \<Rightarrow> number \<Rightarrow>
   (thrown + number) option" where
  "evaluatePolynomialSegment_r rnd xVals coeffs x =
     (case binarySearch xVals x of
        None \<Rightarrow> None
      | Some (Inl e) \<Rightarrow> Some (Inl e)
      | Some (Inr i0) \<Rightarrow>
          (let i1 = (if i0 < 0 then - i0 - 2 else i0);
               i = nat (max 0 (min i1 (int (length coeffs) - 1)))
           in case (if i < length coeffs then coeffs ! i else None) of
                None \<Rightarrow> Some (Inl TypeError)
              | Some c \<Rightarrow> Some (Inr (evaluatePolynomial_r rnd c (rnd (x - js_nth xVals i))))))"

definition differentiateThreePoint_r ::
  "(number \<Rightarrow> number) \<Rightarrow> number list \<Rightarrow> number list \<Rightarrow> nat \<Rightarrow> nat \<Rightarrow> nat \<Rightarrow> nat \<Rightarrow> number" where
  "differentiateThreePoint_r rnd xvals yvals indexOfDifferentiation indexOfFirstSample
       indexOfSecondsample indexOfThirdSample =
     (let x0 = js_nth yvals indexOfFirstSample;
          x1 = js_nth yvals indexOfSecondsample;
          x2 = js_nth yvals indexOfThirdSample;
          t = rnd (js_nth xvals indexOfDifferentiation - js_nth xvals indexOfFirstSample);
          t1 = rnd (js_nth xvals indexOfSecondsample - js_nth xvals indexOfFirstSample);
          t2 = rnd (js_nth xvals indexOfThirdSample - js_nth xvals indexOfFirstSample);
          a = rnd (rnd (rnd (x2 - x0) - rnd (rnd (t2 / t1) * rnd (x1 - x0)))
                   / rnd (rnd (t2 * t2) - rnd (t1 * t2)));
          b = rnd (rnd (rnd (x1 - x0) - rnd (rnd (a * t1) * t1)) / t1)
      in rnd (rnd (rnd (Fin 2 * a) * t) + b))"

definition hermite_body_r ::
  "(number \<Rightarrow> number) \<Rightarrow> number list \<Rightarrow> number list \<Rightarrow> number list \<Rightarrow> nat \<Rightarrow>
   number list \<times> number list option list \<Rightarrow> number list \<times> number list option list" where
  "hermite_body_r rnd xvals yvals firstDerivatives' i st =
     (let coefficients = fst st;
          allCoefficients = snd st;
          w = rnd (js_nth xvals (i + 1) - js_nth xvals i);
          w2 = rnd (w * w);
          yv = js_nth yvals i;
          yvP = js_nth yvals (i + 1);
          fd = js_nth firstDerivatives' i;
          fdP = js_nth firstDerivatives' (i + 1);
          coefficients = js_upd coefficients 0 yv;
          coefficients = js_upd coefficients 1 (js_nth firstDerivatives' i);
          coefficients = js_upd coefficients 2
            (rnd (rnd (rnd (rnd (rnd (Fin 3 * rnd (yvP - yv)) / w) - rnd (Fin 2 * fd)) - fdP) / w));
          coefficients = js_upd coefficients 3
            (rnd (rnd (rnd (rnd (rnd (Fin 2 * rnd (yv - yvP)) / w) + fd) + fdP) / w2))
      in (coefficients, store None allCoefficients i (Some coefficients)))"

definition interpolateHermiteSorted_r ::
  "(number \<Rightarrow> number) \<Rightarrow> number list \<Rightarrow> number list \<Rightarrow> number list \<Rightarrow>
   thrown + number list option list" where
  "interpolateHermiteSorted_r rnd xvals yvals firstDerivatives' =
     (if length xvals \<noteq> length yvals then Inl (new_E ''DimensionMismatchException'')
      else if length xvals \<noteq> length firstDerivatives'
        then Inl (new_E ''DimensionMismatchException'')
      else if length xvals < 2 then Inl (new_E ''NumberIsTooSmallException'')
      else
        (let size = length xvals - 1
         in Inr (snd (for_loop 0 size (hermite_body_r rnd xvals yvals firstDerivatives')
                        ([], replicate size None)))))"

definition differences_r :: "(number \<Rightarrow> number) \<Rightarrow> number list \<Rightarrow> number list \<Rightarrow> number list" where
  "differences_r rnd xvals yvals =
     (let numberOfDiffAndWeightElements = length xvals - 1
      in for_loop 0 numberOfDiffAndWeightElements
           (\<lambda>i d. js_upd d i
              (rnd (rnd (js_nth yvals (i + 1) - js_nth yvals i)
                    / rnd (js_nth xvals (i + 1) - js_nth xvals i))))
           (new_Array numberOfDiffAndWeightElements))"

definition weights_r :: "(number \<Rightarrow> number) \<Rightarrow> number list \<Rightarrow> number list \<Rightarrow> number list" where
  "weights_r rnd xvals yvals =
     (let numberOfDiffAndWeightElements = length xvals - 1;
          d = differences_r rnd xvals yvals
      in for_loop 1 numberOfDiffAndWeightElements
           (\<lambda>i w. js_upd w i (\<bar>rnd (js_nth d i - js_nth d (i - 1))\<bar>))
           (new_Array numberOfDiffAndWeightElements))"

definition firstDerivatives_body_r ::
  "(number \<Rightarrow> number) \<Rightarrow> number list \<Rightarrow> number list \<Rightarrow> number list \<Rightarrow> nat \<Rightarrow>
   number list \<Rightarrow> number list" where
  "firstDerivatives_body_r rnd xvals d w i fd =
     (let wP = js_nth w (i + 1);
          wM = js_nth w (i - 1)
      in if \<bar>wP\<bar> < EPSILON \<and> \<bar>wM\<bar> < EPSILON then
           (let xv = js_nth xvals i;
                xvP = js_nth xvals (i + 1);
                xvM = js_nth xvals (i - 1)
            in js_upd fd i
                 (rnd (rnd (rnd (rnd (xvP - xv) * js_nth d (i - 1))
                            + rnd (rnd (xv - xvM) * js_nth d i))
                       / rnd (xvP - xvM))))
         else js_upd fd i
                (rnd (rnd (rnd (wP * js_nth d (i - 1)) + rnd (wM * js_nth d i))
                      / rnd (wP + wM))))"

definition firstDerivatives_r :: "(number \<Rightarrow> number) \<Rightarrow> number list \<Rightarrow> number list \<Rightarrow> number list" where
  "firstDerivatives_r rnd xvals yvals =
     (let n = length xvals;
          d = differences_r rnd xvals yvals;
          w = weights_r rnd xvals yvals;
          fd = for_loop 2 (n - 2) (firstDerivatives_body_r rnd xvals d w) (new_Array n);
          fd = js_upd fd 0 (differentiateThreePoint_r rnd xvals yvals 0 0 1 2);
          fd = js_upd fd 1 (differentiateThreePoint_r rnd xvals yvals 1 0 1 2);
          fd = js_upd fd (n - 2)
                 (differentiateThreePoint_r rnd xvals yvals (n - 2) (n - 3) (n - 2) (n - 1));
          fd = js_upd fd (n - 1)
                 (differentiateThreePoint_r rnd xvals yvals (n - 1) (n - 3) (n - 2) (n - 1))
      in fd)"

definition interpolate_r ::
  "(number \<Rightarrow> number) \<Rightarrow> number list option \<Rightarrow> number list option \<Rightarrow>
   thrown + number list option list" where
  "interpolate_r rnd xvals yvals =
     (case (xvals, yvals) of
        (Some xv, Some yv) \<Rightarrow>
          if length xv \<noteq> length yv then Inl (new_E ''DimensionMismatchException'')
          else if length xv < MINIMUM_NUMBER_POINTS then Inl (new_E ''NumberIsTooSmallException'')
          else (case checkOrder xv None False False of
                  Inl e \<Rightarrow> Inl e
                | Inr ordered \<Rightarrow>
                    interpolateHermiteSorted_r rnd xv yv (firstDerivatives_r rnd xv yv))
      | _ \<Rightarrow> Inl (new_E ''NullArgumentException''))"

definition createInterpolator_r ::
  "(number \<Rightarrow> number) \<Rightarrow> heap \<Rightarrow> addr option \<Rightarrow> addr option \<Rightarrow>
   thrown + heap \<times> interpolator" where
  "createInterpolator_r rnd h xVals yVals =
     (case interpolate_r rnd (map_option (cells h) xVals) (map_option (cells h) yVals) of
        Inl e \<Rightarrow> Inl e
      | Inr coeffs \<Rightarrow>
          (case xVals of
             None \<Rightarrow> Inl TypeError
           | Some r \<Rightarrow>
               (let (h', copy) = slice0 h r
                in Inr (h', \<lparr>xValsCopy = copy, segmentCoeffs = coeffs\<rparr>))))"

definition call_r ::
  "(number \<Rightarrow> number) \<Rightarrow> heap \<Rightarrow> interpolator \<Rightarrow> number \<Rightarrow> (thrown + number) option" where
  "call_r rnd h f x = evaluatePolynomialSegment_r rnd (cells h (xValsCopy f)) (segmentCoeffs f) x"

text \<open>
  The rounding of \<open>r \<cdot> 2\<^sup>k\<close>: the form in which \<open>binary64\<close> is computed on a numeral,
  by scaling \<open>r\<close> into the range of the 53-bit integers.
\<close>

definition scaled :: "real \<Rightarrow> int \<Rightarrow> number" where
  "scaled r k = binary64 (Fin (r * 2 powr of_int k))"

text \<open>
  A store that holds two arrays, at the addresses 0 and 1, and the fit in binary64 on
  them: the table of \<open>interpolate\<close>, and the store and the function of
  \<open>createInterpolator\<close>.
\<close>

definition two_arrays :: "number list \<Rightarrow> number list \<Rightarrow> heap" where
  "two_arrays x y = \<lparr>cells = (\<lambda>r. if r = 0 then x else if r = 1 then y else []), fresh = 2\<rparr>"

definition table64 :: "number list \<Rightarrow> number list \<Rightarrow> number list option list" where
  "table64 x y = projr (interpolate_r binary64 (Some x) (Some y))"

definition fit64 :: "number list \<Rightarrow> number list \<Rightarrow> heap \<times> interpolator" where
  "fit64 x y = projr (createInterpolator_r binary64 (two_arrays x y) (Some 0) (Some 1))"

text \<open>
  Three inputs of binary64 numbers, with strictly increasing knots. On the first the
  arithmetic overflows: the knots \<open>0, 1, 2, 3, 4\<close> and the values
  \<open>0, 2\<^sup>6\<^sup>0\<^sup>0, 0, 2\<^sup>6\<^sup>0\<^sup>0, 0\<close>. On the other two it cancels: two knots are
  \<open>2\<^sup>-\<^sup>5\<^sup>1\<close> apart, the first two of one, the last but one and its neighbour
  of the other.
\<close>

definition big :: real where
  "big = 2 ^ 600"

definition overflow_xvals :: "number list" where
  "overflow_xvals = map Fin [0, 1, 2, 3, 4]"

definition overflow_yvals :: "number list" where
  "overflow_yvals = map Fin [0, big, 0, big, 0]"



definition close_xvals :: "number list" where
  "close_xvals = map Fin [0, 1, 2, 3, 3 + 1 / 2 ^ 51, 5]"

definition close_yvals :: "number list" where
  "close_yvals = map Fin [0, 1, 0, 0, 1, 0]"

section \<open>Notions of the specification\<close>

text \<open>
  Two neighbours break the order \<open>dir\<close> (with the strictness \<open>strict\<close>), and an array
  violates the order when two of its neighbours break it.
\<close>

definition breaks_order :: "int \<Rightarrow> bool \<Rightarrow> number \<Rightarrow> number \<Rightarrow> bool" where
  "breaks_order dir strict previous current =
     (if dir = INCREASING then (if strict then current \<le> previous else current < previous)
      else (if strict then current \<ge> previous else current > previous))"

definition violates_order :: "number list \<Rightarrow> int \<Rightarrow> bool \<Rightarrow> bool" where
  "violates_order val dir strict =
     (\<exists>i \<in> {0 ..< length val - 1}. breaks_order dir strict (val ! i) (val ! Suc i))"

text \<open>The direction that \<open>checkOrder\<close> takes its argument \<open>dir\<close> for.\<close>

definition requested :: "int option \<Rightarrow> int" where
  "requested dir = (case dir of None \<Rightarrow> INCREASING | Some d \<Rightarrow> if d = 0 then INCREASING else d)"

text \<open>
  The secant slope \<open>diff[j]\<close> and the weight \<open>weight[j]\<close> of the specification, from the
  knots \<open>x\<close> and the values \<open>y\<close>.
\<close>

definition diff :: "number list \<Rightarrow> number list \<Rightarrow> nat \<Rightarrow> number" where
  "diff x y j = (y ! (j + 1) - y ! j) / (x ! (j + 1) - x ! j)"

definition weight :: "number list \<Rightarrow> number list \<Rightarrow> nat \<Rightarrow> number" where
  "weight x y j = \<bar>diff x y j - diff x y (j - 1)\<bar>"

text \<open>The real value of a finite number.\<close>

fun real_of :: "number \<Rightarrow> real" where
  "real_of (Fin a) = a"
| "real_of x = 0"

fun is_finite :: "number \<Rightarrow> bool" where
  "is_finite (Fin a) = True"
| "is_finite x = False"

text \<open>
  The polynomial \<open>p\<^sub>i\<close> of segment \<open>i\<close>, as a function of the real \<open>x\<close>: the row \<open>i\<close> of
  the table, evaluated at the offset of \<open>x\<close> from the knot \<open>i\<close>.
\<close>

definition segment_polynomial ::
  "number list \<Rightarrow> number list option list \<Rightarrow> nat \<Rightarrow> real \<Rightarrow> number" where
  "segment_polynomial xVals coeffs i x =
     (case coeffs ! i of
        None \<Rightarrow> NaN
      | Some c \<Rightarrow> evaluatePolynomial c (Fin x - xVals ! i))"

section \<open>Closed forms and the README's example\<close>

text \<open>
  The row that one iteration of the loop of \<open>interpolateHermiteSorted\<close> leaves in the
  scratch array: the four coefficients of segment \<open>i\<close>, in ascending order.
\<close>

definition hermite_row :: "number list \<Rightarrow> number list \<Rightarrow> number list \<Rightarrow> nat \<Rightarrow> number list" where
  "hermite_row x y d i =
     (let w = x ! (i + 1) - x ! i
      in [y ! i,
          d ! i,
          (Fin 3 * (y ! (i + 1) - y ! i) / w - Fin 2 * d ! i - d ! (i + 1)) / w,
          (Fin 2 * (y ! i - y ! (i + 1)) / w + d ! i + d ! (i + 1)) / (w * w)])"

text \<open>
  The same row with every operation rounded, and the value that the loop over the
  interior knots writes at knot \<open>i\<close>.
\<close>

definition hermite_row_r ::
  "(number \<Rightarrow> number) \<Rightarrow> number list \<Rightarrow> number list \<Rightarrow> number list \<Rightarrow> nat \<Rightarrow> number list" where
  "hermite_row_r rnd x y d i =
     (let w = rnd (x ! (i + 1) - x ! i)
      in [y ! i,
          d ! i,
          rnd (rnd (rnd (rnd (rnd (Fin 3 * rnd (y ! (i + 1) - y ! i)) / w) - rnd (Fin 2 * d ! i))
                    - d ! (i + 1)) / w),
          rnd (rnd (rnd (rnd (rnd (Fin 2 * rnd (y ! i - y ! (i + 1))) / w) + d ! i) + d ! (i + 1))
               / rnd (w * w))])"

definition interior_r ::
  "(number \<Rightarrow> number) \<Rightarrow> number list \<Rightarrow> number list \<Rightarrow> number list \<Rightarrow> nat \<Rightarrow> number" where
  "interior_r rnd xvals d w i =
     (let wP = js_nth w (i + 1); wM = js_nth w (i - 1)
      in if \<bar>wP\<bar> < EPSILON \<and> \<bar>wM\<bar> < EPSILON
         then rnd (rnd (rnd (rnd (js_nth xvals (i + 1) - js_nth xvals i) * js_nth d (i - 1))
                        + rnd (rnd (js_nth xvals i - js_nth xvals (i - 1)) * js_nth d i))
                   / rnd (js_nth xvals (i + 1) - js_nth xvals (i - 1)))
         else rnd (rnd (rnd (wP * js_nth d (i - 1)) + rnd (wM * js_nth d i)) / rnd (wP + wM)))"

text \<open>
  The example of the README: its two arrays, in a store where they are the arrays at the
  addresses 0 and 1.
\<close>

definition readme_xvals :: "number list" where
  "readme_xvals = map Fin [10, 20, 30, 40, 50, 60, 70, 80]"

definition readme_yvals :: "number list" where
  "readme_yvals = map Fin [40, 10, 17, 39, 99, 120, 30, 10]"

definition readme_heap :: heap where
  "readme_heap =
     \<lparr>cells = (\<lambda>r. if r = 0 then readme_xvals else if r = 1 then readme_yvals else []),
      fresh = 2\<rparr>"

text \<open>The fit of the README's example: the store after it, and the returned function.\<close>

definition readme_fit :: "heap \<times> interpolator" where
  "readme_fit = projr (createInterpolator readme_heap (Some 0) (Some 1))"

section \<open>The order check\<close>

lemma checkOrder_for_unfold:
  assumes "dir = INCREASING \<or> dir = DECREASING"
  shows "checkOrder_for val dir strict previous index =
     (if index < length val then
        (if breaks_order dir strict previous (val ! index) then Inr index
         else checkOrder_for val dir strict (val ! index) (Suc index))
      else Inr index)"
  using assms
  by (subst checkOrder_for.simps) (auto simp: breaks_order_def INCREASING_def DECREASING_def)

lemma checkOrder_for_stops:
  assumes "dir = INCREASING \<or> dir = DECREASING"
  shows "\<exists>k. checkOrder_for val dir strict previous index = Inr k"
proof (induction "length val - index" arbitrary: index previous)
  case 0
  then show ?case by (subst checkOrder_for_unfold [OF assms]) simp
next
  case (Suc n)
  then have "n = length val - Suc index" by simp
  from Suc.hyps(1) [OF this] show ?case
    by (subst checkOrder_for_unfold [OF assms]) simp
qed

lemma checkOrder_for_break:
  assumes "dir = INCREASING \<or> dir = DECREASING"
    and "index \<le> i" and "i < length val"
    and "breaks_order dir strict (val ! (i - 1)) (val ! i)"
    and "previous = val ! (index - 1)"
  shows "\<exists>k. checkOrder_for val dir strict previous index = Inr k \<and> k < length val"
  using assms(2,5)
proof (induction "i - index" arbitrary: index previous)
  case 0
  then have "index = i" by simp
  with assms(3,4) 0 show ?case
    by (subst checkOrder_for_unfold [OF assms(1)]) simp
next
  case (Suc n)
  then have step: "n = i - Suc index" "Suc index \<le> i" "val ! index = val ! (Suc index - 1)" by simp_all
  have lt: "index < length val" using Suc.prems(1) assms(3) by simp
  from Suc.hyps(1) [OF step] lt show ?case
    by (subst checkOrder_for_unfold [OF assms(1)]) simp
qed

lemma E_unknown: "E ''NonMonotonicSequenceException'' = None"
  by (simp add: E_def)

lemma ran_E: "ran E = {NullArgumentException, DimensionMismatchException, NumberIsTooSmallException, OutOfRangeException, MathInternalError}"
  unfolding E_def by (subst ran_distinct) simp_all

lemma new_E_unknown: "new_E ''NonMonotonicSequenceException'' = TypeError"
  by (simp add: new_E_def E_unknown)

text \<open>
  Claim C10. When the array violates the requested order and the abort flag is set,
  \<open>checkOrder\<close> fails, but with the \<open>TypeError\<close> of \<open>new undefined(...)\<close>: the
  class it names, \<open>NonMonotonicSequenceException\<close>, is not among the exports of the
  exceptions module, which are exactly the five classes \<open>NullArgumentException\<close>,
  \<open>DimensionMismatchException\<close>, \<open>NumberIsTooSmallException\<close>,
  \<open>OutOfRangeException\<close> and \<open>MathInternalError\<close>. The type \<open>thrown\<close> of the values
  the library can throw has no other instance.
\<close>

theorem checkOrder_abort_throws_TypeError:
  assumes "violates_order val (requested dir) strict"
    and "requested dir = INCREASING \<or> requested dir = DECREASING"
  shows "checkOrder val dir strict True = Inl TypeError
       \<and> E ''NonMonotonicSequenceException'' = None
       \<and> ran E = {NullArgumentException, DimensionMismatchException,
             NumberIsTooSmallException, OutOfRangeException, MathInternalError}"
proof -
  from assms(1) obtain i where i: "Suc i < length val"
      "breaks_order (requested dir) strict (val ! i) (val ! Suc i)"
    by (fastforce simp: violates_order_def less_diff_conv)
  have "\<exists>k. checkOrder_for val (requested dir) strict (js_nth val 0) 1 = Inr k \<and> k < length val"
  proof (rule checkOrder_for_break [OF assms(2), of 1 "Suc i"])
    show "js_nth val 0 = val ! (1 - 1)" using i(1) by (auto simp: js_nth_def)
  qed (use i in simp_all)
  then obtain k where k: "checkOrder_for val (requested dir) strict (js_nth val 0) 1 = Inr k"
      "k < length val" by blast
  have "checkOrder val dir strict True = Inl TypeError"
    using k by (simp add: checkOrder_def requested_def [symmetric] new_E_unknown)
  then show ?thesis by (simp add: E_unknown ran_E)
qed

theorem checkOrder_abort_throws_TypeError_witness:
  "checkOrder (map Fin [1, 2, 2, 4, 5]) None True True = Inl TypeError
   \<and> E ''NonMonotonicSequenceException'' = None
   \<and> ran E = {NullArgumentException, DimensionMismatchException,
         NumberIsTooSmallException, OutOfRangeException, MathInternalError}"
proof -
  have v: "violates_order (map Fin [1, 2, 2, 4, 5]) (requested None) True"
    by code_simp
  have d: "requested None = INCREASING \<or> requested None = DECREASING"
    by (simp add: requested_def)
  show ?thesis
    using checkOrder_abort_throws_TypeError [OF v d] by simp
qed

section \<open>Numbers\<close>

lemma minus_Fin [simp]: "Fin a - Fin b = Fin (a - b)"
  by (simp add: minus_number_def)

lemma less_eq_Fin [simp]: "Fin a \<le> Fin b \<longleftrightarrow> a \<le> b"
  by (auto simp: less_eq_number_def)

lemma divide_Fin: "b \<noteq> 0 \<Longrightarrow> Fin a / Fin b = Fin (a / b)"
  by simp

lemma times_number_commute: "x * y = y * (x :: number)"
  by (cases x; cases y) (simp_all add: mult.commute)

lemma not_less_NaN [simp]: "\<not> x < NaN" "\<not> NaN < x"
  by (cases x; simp)+

section \<open>Arrays and loops\<close>

lemma js_nth_in [simp]: "i < length a \<Longrightarrow> js_nth a i = a ! i"
  by (simp add: js_nth_def)

lemma js_nth_map_Fin [simp]: "i < length a \<Longrightarrow> js_nth (map Fin a) i = Fin (a ! i)"
  by (simp add: js_nth_def)

lemma store_in: "i < length a \<Longrightarrow> store hole a i v = a[i := v]"
  by (simp add: store_def)

lemma js_upd_in [simp]: "i < length a \<Longrightarrow> js_upd a i v = a[i := v]"
  by (simp add: js_upd_def store_def)

lemma length_new_Array [simp]: "length (new_Array n) = n"
  by (simp add: new_Array_def)

lemma for_loop_done: "hi \<le> i \<Longrightarrow> for_loop i hi body s = s"
  by (subst for_loop.simps) simp

lemma for_loop_step: "i < hi \<Longrightarrow> for_loop i hi body s = for_loop (Suc i) hi body (body i s)"
  by (subst for_loop.simps) simp

text \<open>The invariant rule of the counted loop.\<close>

lemma for_loop_invariant:
  assumes "P i s" and "i \<le> hi"
    and "\<And>k t. i \<le> k \<Longrightarrow> k < hi \<Longrightarrow> P k t \<Longrightarrow> P (Suc k) (body k t)"
  shows "P hi (for_loop i hi body s)"
  using assms
proof (induction "hi - i" arbitrary: i s)
  case 0
  then show ?case by (simp add: for_loop_done)
next
  case (Suc n)
  then have lt: "i < hi" by simp
  have "P hi (for_loop (Suc i) hi body (body i s))"
  proof (rule Suc.hyps(1))
    show "n = hi - Suc i" using Suc.hyps(2) by simp
    show "P (Suc i) (body i s)" using Suc.prems(1,3) lt by simp
    show "Suc i \<le> hi" using lt by simp
    show "\<And>k t. Suc i \<le> k \<Longrightarrow> k < hi \<Longrightarrow> P k t \<Longrightarrow> P (Suc k) (body k t)"
      using Suc.prems(3) by simp
  qed
  then show ?case by (simp add: for_loop_step [OF lt])
qed

text \<open>A loop that fills the slots \<open>lo\<close> to \<open>hi - 1\<close> of an array, slot \<open>k\<close> with \<open>f k\<close>.\<close>

lemma for_loop_fill:
  assumes "hi \<le> length a" and "lo \<le> hi"
  shows "for_loop lo hi (\<lambda>k d. js_upd d k (f k)) a =
         map (\<lambda>j. if lo \<le> j \<and> j < hi then f j else a ! j) [0 ..< length a]"
proof -
  let ?P = "\<lambda>k d. d = map (\<lambda>j. if lo \<le> j \<and> j < k then f j else a ! j) [0 ..< length a]"
  have "?P hi (for_loop lo hi (\<lambda>k d. js_upd d k (f k)) a)"
  proof (rule for_loop_invariant [where P = ?P])
    show "?P lo a" by (rule nth_equalityI) auto
    show "lo \<le> hi" by fact
  next
    fix k t assume k: "lo \<le> k" "k < hi" and t: "?P k t"
    have len: "length t = length a" using t by simp
    have kl: "k < length t" using k assms(1) len by simp
    have nth: "t ! j = (if lo \<le> j \<and> j < k then f j else a ! j)" if "j < length a" for j
      using that by (subst t) simp
    show "?P (Suc k) (js_upd t k (f k))"
    proof (rule nth_equalityI)
      show "length (js_upd t k (f k)) =
            length (map (\<lambda>j. if lo \<le> j \<and> j < Suc k then f j else a ! j) [0 ..< length a])"
        using kl len by simp
    next
      fix j assume "j < length (js_upd t k (f k))"
      then have j: "j < length a" using kl len by simp
      show "js_upd t k (f k) ! j =
            map (\<lambda>j. if lo \<le> j \<and> j < Suc k then f j else a ! j) [0 ..< length a] ! j"
        using j kl k(1) len nth [OF j] by (auto simp: nth_list_update less_Suc_eq)
    qed
  qed
  then show ?thesis .
qed

section \<open>The arrays of \<open>interpolate\<close>\<close>

lemma differences_eq:
  "differences x y =
     map (\<lambda>j. (js_nth y (j + 1) - js_nth y j) / (js_nth x (j + 1) - js_nth x j))
       [0 ..< length x - 1]"
  unfolding differences_def Let_def
  by (subst for_loop_fill) (simp_all cong: map_cong)

lemma length_differences [simp]: "length (differences x y) = length x - 1"
  by (simp add: differences_eq)

lemma differences_nth:
  assumes "length y = length x" and "Suc j < length x"
  shows "differences x y ! j = diff x y j"
proof -
  have "j < length x - 1" using assms by simp
  then show ?thesis
    using assms by (simp add: differences_eq diff_def)
qed

lemma weights_eq:
  assumes "2 \<le> length x"
  shows "weights x y =
     map (\<lambda>j. if 1 \<le> j then \<bar>js_nth (differences x y) j - js_nth (differences x y) (j - 1)\<bar>
               else NaN)
       [0 ..< length x - 1]"
  unfolding weights_def Let_def using assms
  by (subst for_loop_fill) (auto simp: new_Array_def)

lemma length_weights [simp]: "2 \<le> length x \<Longrightarrow> length (weights x y) = length x - 1"
  by (simp add: weights_eq)

lemma weights_nth:
  assumes "length y = length x" and "1 \<le> j" and "Suc j < length x"
  shows "weights x y ! j = weight x y j"
proof -
  have "2 \<le> length x" using assms by simp
  then show ?thesis
    using assms by (simp add: weights_eq weight_def differences_nth)
qed

text \<open>The value that the loop over the interior knots writes at knot \<open>i\<close>.\<close>

lemma firstDerivatives_body_eq:
  "firstDerivatives_body xvals d w =
     (\<lambda>i fd. js_upd fd i
        (let wP = js_nth w (i + 1); wM = js_nth w (i - 1)
         in if \<bar>wP\<bar> < EPSILON \<and> \<bar>wM\<bar> < EPSILON
            then (((js_nth xvals (i + 1) - js_nth xvals i) * js_nth d (i - 1))
                  + ((js_nth xvals i - js_nth xvals (i - 1)) * js_nth d i))
                 / (js_nth xvals (i + 1) - js_nth xvals (i - 1))
            else ((wP * js_nth d (i - 1)) + (wM * js_nth d i)) / (wP + wM)))"
  by (intro ext) (simp add: firstDerivatives_body_def Let_def)

text \<open>The array of first derivatives, in closed form.\<close>

lemma firstDerivatives_eq:
  assumes "5 \<le> length x"
  shows "firstDerivatives x y =
     (map (\<lambda>i. if 2 \<le> i \<and> i < length x - 2
               then (let wP = js_nth (weights x y) (i + 1); wM = js_nth (weights x y) (i - 1)
                     in if \<bar>wP\<bar> < EPSILON \<and> \<bar>wM\<bar> < EPSILON
                        then (((js_nth x (i + 1) - js_nth x i) * js_nth (differences x y) (i - 1))
                              + ((js_nth x i - js_nth x (i - 1)) * js_nth (differences x y) i))
                             / (js_nth x (i + 1) - js_nth x (i - 1))
                        else ((wP * js_nth (differences x y) (i - 1))
                              + (wM * js_nth (differences x y) i)) / (wP + wM))
               else NaN)
        [0 ..< length x])
     [0 := differentiateThreePoint x y 0 0 1 2,
      1 := differentiateThreePoint x y 1 0 1 2,
      length x - 2 :=
        differentiateThreePoint x y (length x - 2) (length x - 3) (length x - 2) (length x - 1),
      length x - 1 :=
        differentiateThreePoint x y (length x - 1) (length x - 3) (length x - 2) (length x - 1)]"
proof -
  have n: "0 < length x" "1 < length x" "length x - 2 < length x" "length x - 1 < length x"
      "2 \<le> length x - 2" "length x - 2 \<le> length x"
    using assms by auto
  let ?g = "for_loop 2 (length x - 2)
      (firstDerivatives_body x (differences x y) (weights x y)) (new_Array (length x))"
  have g: "?g = map (\<lambda>i. if 2 \<le> i \<and> i < length x - 2
               then (let wP = js_nth (weights x y) (i + 1); wM = js_nth (weights x y) (i - 1)
                     in if \<bar>wP\<bar> < EPSILON \<and> \<bar>wM\<bar> < EPSILON
                        then (((js_nth x (i + 1) - js_nth x i) * js_nth (differences x y) (i - 1))
                              + ((js_nth x i - js_nth x (i - 1)) * js_nth (differences x y) i))
                             / (js_nth x (i + 1) - js_nth x (i - 1))
                        else ((wP * js_nth (differences x y) (i - 1))
                              + (wM * js_nth (differences x y) i)) / (wP + wM))
               else NaN)
        [0 ..< length x]" (is "_ = ?m")
    unfolding firstDerivatives_body_eq
    by (subst for_loop_fill) (simp_all add: n new_Array_def cong: map_cong)
  define m where "m = ?m"
  have l: "length m = length x" by (simp add: m_def)
  have "js_upd (js_upd (js_upd (js_upd m 0 v0) 1 v1) (length x - 2) v2) (length x - 1) v3 =
        m[0 := v0, 1 := v1, length x - 2 := v2, length x - 1 := v3]" for v0 v1 v2 v3
    using n l by (simp del: One_nat_def)
  then show ?thesis
    unfolding firstDerivatives_def Let_def g m_def .
qed

lemma length_firstDerivatives [simp]:
  assumes "5 \<le> length x"
  shows "length (firstDerivatives x y) = length x"
  by (simp add: firstDerivatives_eq [OF assms])

lemma firstDerivatives_interior:
  assumes "length y = length x" and "5 \<le> length x" and "2 \<le> i" and "i < length x - 2"
  shows "firstDerivatives x y ! i =
     (let wP = weight x y (i + 1); wM = weight x y (i - 1)
      in if \<bar>wP\<bar> < EPSILON \<and> \<bar>wM\<bar> < EPSILON
         then ((x ! (i + 1) - x ! i) * diff x y (i - 1) + (x ! i - x ! (i - 1)) * diff x y i)
              / (x ! (i + 1) - x ! (i - 1))
         else (wP * diff x y (i - 1) + wM * diff x y i) / (wP + wM))"
proof -
  have w: "js_nth (weights x y) (i + 1) = weight x y (i + 1)"
          "js_nth (weights x y) (i - 1) = weight x y (i - 1)"
    using assms by (simp_all add: weights_nth)
  have d: "js_nth (differences x y) (i - 1) = diff x y (i - 1)"
          "js_nth (differences x y) i = diff x y i"
    using assms by (simp_all add: differences_nth)
  have xs: "js_nth x (i + 1) = x ! (i + 1)" "js_nth x i = x ! i" "js_nth x (i - 1) = x ! (i - 1)"
    using assms by simp_all
  have i: "i < length x" "i \<noteq> 0" "i \<noteq> 1" "i \<noteq> length x - 2" "i \<noteq> length x - 1"
    using assms by simp_all
  have u: "[0 ..< length x] ! i = i" using i(1) by simp
  show ?thesis
    unfolding firstDerivatives_eq [OF assms(2)]
    using i assms(3,4) by (simp add: u w d xs Let_def del: One_nat_def cong: if_cong)
qed

lemma firstDerivatives_boundary:
  assumes "5 \<le> length x"
  shows "firstDerivatives x y ! 0 = differentiateThreePoint x y 0 0 1 2"
    and "firstDerivatives x y ! 1 = differentiateThreePoint x y 1 0 1 2"
    and "firstDerivatives x y ! (length x - 2) =
           differentiateThreePoint x y (length x - 2) (length x - 3) (length x - 2) (length x - 1)"
    and "firstDerivatives x y ! (length x - 1) =
           differentiateThreePoint x y (length x - 1) (length x - 3) (length x - 2) (length x - 1)"
proof -
  have n: "0 < length x" "1 < length x" "length x - 2 < length x" "length x - 1 < length x"
      "length x - 2 \<noteq> 0" "length x - 2 \<noteq> 1" "length x - 1 \<noteq> 0" "length x - 1 \<noteq> 1"
      "length x - 1 \<noteq> length x - 2" "(0::nat) \<noteq> 1"
    using assms by auto
  show "firstDerivatives x y ! 0 = differentiateThreePoint x y 0 0 1 2"
    and "firstDerivatives x y ! 1 = differentiateThreePoint x y 1 0 1 2"
    and "firstDerivatives x y ! (length x - 2) =
           differentiateThreePoint x y (length x - 2) (length x - 3) (length x - 2) (length x - 1)"
    and "firstDerivatives x y ! (length x - 1) =
           differentiateThreePoint x y (length x - 1) (length x - 3) (length x - 2) (length x - 1)"
    unfolding firstDerivatives_eq [OF assms]
    using n by (simp_all add: nth_list_update del: One_nat_def)
qed

section \<open>The coefficient table\<close>

lemma scratch_array_filled:
  assumes "c = [] \<or> length c = 4"
  shows "js_upd (js_upd (js_upd (js_upd c 0 v0) 1 v1) 2 v2) 3 v3 = [v0, v1, v2, v3]"
proof -
  from assms consider "c = []" | a b c' d where "c = [a, b, c', d]"
    by (auto simp: numeral_eq_Suc length_Suc_conv)
  then show ?thesis
    by cases (simp_all add: js_upd_def store_def)
qed

lemma hermite_body_eq:
  assumes "fst st = [] \<or> length (fst st) = 4"
    and "length y = length x" and "length d = length x" and "Suc i < length x"
  shows "hermite_body x y d i st = (hermite_row x y d i, store None (snd st) i (Some (hermite_row x y d i)))"
  using assms(2-4)
  by (simp add: hermite_body_def hermite_row_def Let_def scratch_array_filled [OF assms(1)]
        del: One_nat_def)

lemma interpolateHermiteSorted_eq:
  assumes "length y = length x" and "length d = length x" and "2 \<le> length x"
  shows "interpolateHermiteSorted x y d =
           Inr (map (\<lambda>i. Some (hermite_row x y d i)) [0 ..< length x - 1])"
proof -
  let ?size = "length x - 1"
  let ?P = "\<lambda>k (st :: number list \<times> number list option list). (fst st = [] \<or> length (fst st) = 4) \<and>
     snd st = map (\<lambda>j. if j < k then Some (hermite_row x y d j) else None) [0 ..< ?size]"
  have "?P ?size (for_loop 0 ?size (hermite_body x y d) ([], replicate ?size None))"
  proof (rule for_loop_invariant [where P = ?P])
    show "?P 0 ([], replicate ?size None)"
      by (auto intro: nth_equalityI)
    show "0 \<le> ?size" by simp
  next
    fix k t assume k: "0 \<le> k" "k < ?size" and t: "?P k t"
    have step: "hermite_body x y d k t =
        (hermite_row x y d k, store None (snd t) k (Some (hermite_row x y d k)))"
      using t k assms by (intro hermite_body_eq) auto
    have len: "length (snd t) = ?size" using t by simp
    have nth: "snd t ! j = (if j < k then Some (hermite_row x y d j) else None)" if "j < ?size" for j
      using t that by simp
    have "store None (snd t) k (Some (hermite_row x y d k)) =
          map (\<lambda>j. if j < Suc k then Some (hermite_row x y d j) else None) [0 ..< ?size]"
    proof (rule nth_equalityI)
      show "length (store None (snd t) k (Some (hermite_row x y d k))) =
            length (map (\<lambda>j. if j < Suc k then Some (hermite_row x y d j) else None) [0 ..< ?size])"
        using k len by (simp add: store_in)
    next
      fix j assume "j < length (store None (snd t) k (Some (hermite_row x y d k)))"
      then have j: "j < ?size" using k len by (simp add: store_in)
      show "store None (snd t) k (Some (hermite_row x y d k)) ! j =
            map (\<lambda>j. if j < Suc k then Some (hermite_row x y d j) else None) [0 ..< ?size] ! j"
        using j k len nth [OF j] by (auto simp: store_in nth_list_update less_Suc_eq)
    qed
    then show "?P (Suc k) (hermite_body x y d k t)"
      by (simp add: step hermite_row_def Let_def)
  qed
  then have "snd (for_loop 0 ?size (hermite_body x y d) ([], replicate ?size None)) =
       map (\<lambda>i. Some (hermite_row x y d i)) [0 ..< ?size]"
    by (simp cong: map_cong)
  then show ?thesis
    using assms by (simp add: interpolateHermiteSorted_def Let_def)
qed

lemma checkOrder_defaults: "\<exists>ordered. checkOrder val None False False = Inr ordered"
proof -
  have "INCREASING = INCREASING \<or> INCREASING = DECREASING" by simp
  from checkOrder_for_stops [OF this, of val False "js_nth val 0" 1]
  show ?thesis by (auto simp: checkOrder_def)
qed

text \<open>Past its guards, \<open>interpolate\<close> returns the table of the Hermite rows.\<close>

lemma interpolate_eq:
  assumes "length y = length x" and "5 \<le> length x"
  shows "interpolate (Some x) (Some y) =
           Inr (map (\<lambda>i. Some (hermite_row x y (firstDerivatives x y) i)) [0 ..< length x - 1])"
proof -
  obtain ordered where "checkOrder x None False False = Inr ordered"
    using checkOrder_defaults by blast
  moreover have "interpolateHermiteSorted x y (firstDerivatives x y) =
           Inr (map (\<lambda>i. Some (hermite_row x y (firstDerivatives x y) i)) [0 ..< length x - 1])"
    using assms by (intro interpolateHermiteSorted_eq) simp_all
  ultimately show ?thesis
    using assms by (simp add: interpolate_def MINIMUM_NUMBER_POINTS_def)
qed

section \<open>Three-point differentiation\<close>

lemma differentiateThreePoint_Fin:
  fixes xs ys :: "real list"
  assumes "k < length xs" "i0 < length xs" "i1 < length xs" "i2 < length xs"
    and "length ys = length xs"
    and "xs ! i1 \<noteq> xs ! i0" "xs ! i2 \<noteq> xs ! i0" "xs ! i2 \<noteq> xs ! i1"
  shows "differentiateThreePoint (map Fin xs) (map Fin ys) k i0 i1 i2 =
     (let t = xs ! k - xs ! i0; t1 = xs ! i1 - xs ! i0; t2 = xs ! i2 - xs ! i0;
          a = (ys ! i2 - ys ! i0 - (t2 / t1 * (ys ! i1 - ys ! i0))) / (t2 * t2 - t1 * t2);
          b = (ys ! i1 - ys ! i0 - a * t1 * t1) / t1
      in Fin (2 * a * t + b))"
proof -
  have t1: "xs ! i1 - xs ! i0 \<noteq> 0" using assms(6) by simp
  have "(xs ! i2 - xs ! i0) * ((xs ! i2 - xs ! i0) - (xs ! i1 - xs ! i0)) \<noteq> 0"
    using assms(7,8) by simp
  then have den: "(xs ! i2 - xs ! i0) * (xs ! i2 - xs ! i0) - (xs ! i1 - xs ! i0) * (xs ! i2 - xs ! i0) \<noteq> 0"
    by (simp add: algebra_simps)
  show ?thesis
    using assms(1-5) t1 den
    by (simp add: differentiateThreePoint_def Let_def)
qed

text \<open>The quadratic through three points with distinct abscissae is unique.\<close>

lemma quadratic_through_unique:
  fixes t1 t2 :: real
  assumes "t1 \<noteq> 0" "t2 \<noteq> 0" "t1 \<noteq> t2"
    and "b * t1 + a * t1\<^sup>2 = b' * t1 + a' * t1\<^sup>2"
    and "b * t2 + a * t2\<^sup>2 = b' * t2 + a' * t2\<^sup>2"
  shows "a' = a \<and> b' = b"
proof -
  have "((b - b') + (a - a') * t1) * t1 = 0"
    using assms(4) by (simp add: algebra_simps power2_eq_square)
  then have e1: "(b - b') + (a - a') * t1 = 0" using assms(1) by simp
  have "((b - b') + (a - a') * t2) * t2 = 0"
    using assms(5) by (simp add: algebra_simps power2_eq_square)
  then have e2: "(b - b') + (a - a') * t2 = 0" using assms(2) by simp
  from e1 e2 have "(a - a') * (t1 - t2) = 0" by (simp add: algebra_simps)
  then have a: "a' = a" using assms(3) by simp
  with e1 show ?thesis by simp
qed

lemma quadratic_through:
  fixes t1 t2 y0 y1 y2 :: real
  assumes "t1 \<noteq> 0" "t2 \<noteq> 0" "t1 \<noteq> t2"
  defines "a \<equiv> (y2 - y0 - (t2 / t1 * (y1 - y0))) / (t2 * t2 - t1 * t2)"
  defines "b \<equiv> (y1 - y0 - a * t1 * t1) / t1"
  shows "y1 = y0 + b * t1 + a * t1\<^sup>2" and "y2 = y0 + b * t2 + a * t2\<^sup>2"
proof -
  show 1: "y1 = y0 + b * t1 + a * t1\<^sup>2"
    using assms(1) by (simp add: b_def power2_eq_square)
  have den: "t2 * t2 - t1 * t2 \<noteq> 0"
  proof -
    have "t2 * (t2 - t1) \<noteq> 0" using assms(2,3) by simp
    then show ?thesis by (simp add: algebra_simps)
  qed
  have a: "a * (t2 * t2 - t1 * t2) = y2 - y0 - (t2 / t1 * (y1 - y0))"
    using den by (simp add: a_def)
  have b: "b * t1 = y1 - y0 - a * t1 * t1"
    using assms(1) by (simp add: b_def)
  have "b * t2 = (b * t1) * (t2 / t1)" using assms(1) by simp
  also have "\<dots> = (y1 - y0 - a * t1 * t1) * (t2 / t1)" by (simp only: b)
  also have "\<dots> = t2 / t1 * (y1 - y0) - a * t1 * t2"
    using assms(1) by (simp add: field_simps)
  finally have "b * t2 + a * t2\<^sup>2 = t2 / t1 * (y1 - y0) + a * (t2 * t2 - t1 * t2)"
    by (simp add: algebra_simps power2_eq_square)
  with a show "y2 = y0 + b * t2 + a * t2\<^sup>2" by simp
qed

text \<open>
  Claim C5. The derivatives at the four boundary knots \<open>0\<close>, \<open>1\<close>, \<open>n - 2\<close> and
  \<open>n - 1\<close> are the three-point derivatives anchored at the knots \<open>0, 1, 2\<close> and
  \<open>n - 3, n - 2, n - 1\<close>, taken at the boundary knot itself. For three samples with
  distinct abscissae there is exactly one quadratic \<open>y\<^sub>0 + b t + a t\<^sup>2\<close> (in the offset
  \<open>t\<close> from the first sample) through them, and on finite numbers
  \<open>differentiateThreePoint\<close> returns \<open>2 a t + b\<close> at the offset of the evaluation knot,
  which is the derivative of that quadratic there.
\<close>

theorem boundary_derivatives_three_point:
  fixes x y :: "number list" and xs ys :: "real list"
  assumes "5 \<le> length x"
    and "k < length xs" "i0 < length xs" "i1 < length xs" "i2 < length xs"
    and "length ys = length xs"
    and "xs ! i1 \<noteq> xs ! i0" "xs ! i2 \<noteq> xs ! i0" "xs ! i2 \<noteq> xs ! i1"
  shows "firstDerivatives x y ! 0 = differentiateThreePoint x y 0 0 1 2
   \<and> firstDerivatives x y ! 1 = differentiateThreePoint x y 1 0 1 2
   \<and> firstDerivatives x y ! (length x - 2) =
       differentiateThreePoint x y (length x - 2) (length x - 3) (length x - 2) (length x - 1)
   \<and> firstDerivatives x y ! (length x - 1) =
       differentiateThreePoint x y (length x - 1) (length x - 3) (length x - 2) (length x - 1)
   \<and> (\<exists>a b. ys ! i1 = ys ! i0 + b * (xs ! i1 - xs ! i0) + a * (xs ! i1 - xs ! i0)\<^sup>2
         \<and> ys ! i2 = ys ! i0 + b * (xs ! i2 - xs ! i0) + a * (xs ! i2 - xs ! i0)\<^sup>2
         \<and> (\<forall>a' b'. ys ! i1 = ys ! i0 + b' * (xs ! i1 - xs ! i0) + a' * (xs ! i1 - xs ! i0)\<^sup>2
                  \<and> ys ! i2 = ys ! i0 + b' * (xs ! i2 - xs ! i0) + a' * (xs ! i2 - xs ! i0)\<^sup>2
                  \<longrightarrow> a' = a \<and> b' = b)
         \<and> differentiateThreePoint (map Fin xs) (map Fin ys) k i0 i1 i2 =
             Fin (2 * a * (xs ! k - xs ! i0) + b)
         \<and> ((\<lambda>u. ys ! i0 + b * (u - xs ! i0) + a * (u - xs ! i0)\<^sup>2)
              has_real_derivative 2 * a * (xs ! k - xs ! i0) + b) (at (xs ! k)))"
proof -
  define t1 where "t1 = xs ! i1 - xs ! i0"
  define t2 where "t2 = xs ! i2 - xs ! i0"
  define a where "a = (ys ! i2 - ys ! i0 - (t2 / t1 * (ys ! i1 - ys ! i0))) / (t2 * t2 - t1 * t2)"
  define b where "b = (ys ! i1 - ys ! i0 - a * t1 * t1) / t1"
  have t: "t1 \<noteq> 0" "t2 \<noteq> 0" "t1 \<noteq> t2"
    using assms(7-9) by (simp_all add: t1_def t2_def)
  have through: "ys ! i1 = ys ! i0 + b * t1 + a * t1\<^sup>2" "ys ! i2 = ys ! i0 + b * t2 + a * t2\<^sup>2"
    unfolding a_def b_def by (rule quadratic_through [OF t])+
  have unique: "a' = a \<and> b' = b"
    if "ys ! i1 = ys ! i0 + b' * t1 + a' * t1\<^sup>2" "ys ! i2 = ys ! i0 + b' * t2 + a' * t2\<^sup>2"
    for a' b'
    using quadratic_through_unique [OF t, of b a b' a'] through that by simp
  have dtp: "differentiateThreePoint (map Fin xs) (map Fin ys) k i0 i1 i2 =
      Fin (2 * a * (xs ! k - xs ! i0) + b)"
    using differentiateThreePoint_Fin [OF assms(2-9)]
    by (simp add: Let_def a_def b_def t1_def t2_def)
  have deriv: "((\<lambda>u. ys ! i0 + b * (u - xs ! i0) + a * (u - xs ! i0)\<^sup>2)
      has_real_derivative 2 * a * (xs ! k - xs ! i0) + b) (at (xs ! k))"
    by (auto intro!: derivative_eq_intros)
  show ?thesis
    using firstDerivatives_boundary [OF assms(1), of y] through unique dtp deriv
    unfolding t1_def t2_def by blast
qed

theorem boundary_derivatives_three_point_witness:
  "firstDerivatives (map Fin [10, 20, 30, 40, 50, 60, 70, 80]) (map Fin [40, 10, 17, 39, 99, 120, 30, 10]) ! 0 = differentiateThreePoint (map Fin [10, 20, 30, 40, 50, 60, 70, 80]) (map Fin [40, 10, 17, 39, 99, 120, 30, 10]) 0 0 1 2
   \<and> firstDerivatives (map Fin [10, 20, 30, 40, 50, 60, 70, 80]) (map Fin [40, 10, 17, 39, 99, 120, 30, 10]) ! 1 = differentiateThreePoint (map Fin [10, 20, 30, 40, 50, 60, 70, 80]) (map Fin [40, 10, 17, 39, 99, 120, 30, 10]) 1 0 1 2
   \<and> firstDerivatives (map Fin [10, 20, 30, 40, 50, 60, 70, 80]) (map Fin [40, 10, 17, 39, 99, 120, 30, 10]) ! (length (map Fin [10, 20, 30, 40, 50, 60, 70, 80]) - 2) =
       differentiateThreePoint (map Fin [10, 20, 30, 40, 50, 60, 70, 80]) (map Fin [40, 10, 17, 39, 99, 120, 30, 10]) (length (map Fin [10, 20, 30, 40, 50, 60, 70, 80]) - 2) (length (map Fin [10, 20, 30, 40, 50, 60, 70, 80]) - 3) (length (map Fin [10, 20, 30, 40, 50, 60, 70, 80]) - 2) (length (map Fin [10, 20, 30, 40, 50, 60, 70, 80]) - 1)
   \<and> firstDerivatives (map Fin [10, 20, 30, 40, 50, 60, 70, 80]) (map Fin [40, 10, 17, 39, 99, 120, 30, 10]) ! (length (map Fin [10, 20, 30, 40, 50, 60, 70, 80]) - 1) =
       differentiateThreePoint (map Fin [10, 20, 30, 40, 50, 60, 70, 80]) (map Fin [40, 10, 17, 39, 99, 120, 30, 10]) (length (map Fin [10, 20, 30, 40, 50, 60, 70, 80]) - 1) (length (map Fin [10, 20, 30, 40, 50, 60, 70, 80]) - 3) (length (map Fin [10, 20, 30, 40, 50, 60, 70, 80]) - 2) (length (map Fin [10, 20, 30, 40, 50, 60, 70, 80]) - 1)
   \<and> (\<exists>a b. [40, 10, 17 :: real] ! (1::nat) = [40, 10, 17 :: real] ! (0::nat) + b * ([10, 20, 30 :: real] ! (1::nat) - [10, 20, 30 :: real] ! (0::nat)) + a * ([10, 20, 30 :: real] ! (1::nat) - [10, 20, 30 :: real] ! (0::nat))\<^sup>2
         \<and> [40, 10, 17 :: real] ! (2::nat) = [40, 10, 17 :: real] ! (0::nat) + b * ([10, 20, 30 :: real] ! (2::nat) - [10, 20, 30 :: real] ! (0::nat)) + a * ([10, 20, 30 :: real] ! (2::nat) - [10, 20, 30 :: real] ! (0::nat))\<^sup>2
         \<and> (\<forall>a' b'. [40, 10, 17 :: real] ! (1::nat) = [40, 10, 17 :: real] ! (0::nat) + b' * ([10, 20, 30 :: real] ! (1::nat) - [10, 20, 30 :: real] ! (0::nat)) + a' * ([10, 20, 30 :: real] ! (1::nat) - [10, 20, 30 :: real] ! (0::nat))\<^sup>2
                  \<and> [40, 10, 17 :: real] ! (2::nat) = [40, 10, 17 :: real] ! (0::nat) + b' * ([10, 20, 30 :: real] ! (2::nat) - [10, 20, 30 :: real] ! (0::nat)) + a' * ([10, 20, 30 :: real] ! (2::nat) - [10, 20, 30 :: real] ! (0::nat))\<^sup>2
                  \<longrightarrow> a' = a \<and> b' = b)
         \<and> differentiateThreePoint (map Fin [10, 20, 30 :: real]) (map Fin [40, 10, 17 :: real]) (0::nat) (0::nat) (1::nat) (2::nat) =
             Fin (2 * a * ([10, 20, 30 :: real] ! (0::nat) - [10, 20, 30 :: real] ! (0::nat)) + b)
         \<and> ((\<lambda>u. [40, 10, 17 :: real] ! (0::nat) + b * (u - [10, 20, 30 :: real] ! (0::nat)) + a * (u - [10, 20, 30 :: real] ! (0::nat))\<^sup>2)
              has_real_derivative 2 * a * ([10, 20, 30 :: real] ! (0::nat) - [10, 20, 30 :: real] ! (0::nat)) + b) (at ([10, 20, 30 :: real] ! (0::nat))))"
  by (rule boundary_derivatives_three_point) simp_all

text \<open>
  Claim C4. For knots \<open>x\<close> and values \<open>y\<close> of the same length \<open>n \<ge> 5\<close>, the fit uses
  the array \<open>firstDerivatives x y\<close>, and at every interior knot \<open>i\<close> from \<open>2\<close> to
  \<open>n - 3\<close> its entry is the weighted average
  \<open>(wP diff[i-1] + wM diff[i]) / (wP + wM)\<close> with \<open>wP = weight[i+1]\<close> and
  \<open>wM = weight[i-1]\<close>, unless \<open>|wP|\<close> and \<open>|wM|\<close> are both below \<open>Number.EPSILON\<close>,
  when it is the blend
  \<open>((x[i+1] - x[i]) diff[i-1] + (x[i] - x[i-1]) diff[i]) / (x[i+1] - x[i-1])\<close>.
\<close>

theorem interior_first_derivative:
  assumes "length y = length x" and "5 \<le> length x" and "2 \<le> i" and "i \<le> length x - 3"
  shows "interpolate (Some x) (Some y) = interpolateHermiteSorted x y (firstDerivatives x y)
    \<and> firstDerivatives x y ! i =
     (let wP = weight x y (i + 1); wM = weight x y (i - 1)
      in if \<bar>wP\<bar> < EPSILON \<and> \<bar>wM\<bar> < EPSILON
         then ((x ! (i + 1) - x ! i) * diff x y (i - 1) + (x ! i - x ! (i - 1)) * diff x y i)
              / (x ! (i + 1) - x ! (i - 1))
         else (wP * diff x y (i - 1) + wM * diff x y i) / (wP + wM))"
proof -
  have "i < length x - 2" using assms(2,4) by simp
  from firstDerivatives_interior [OF assms(1,2,3) this]
  have d: "firstDerivatives x y ! i =
     (let wP = weight x y (i + 1); wM = weight x y (i - 1)
      in if \<bar>wP\<bar> < EPSILON \<and> \<bar>wM\<bar> < EPSILON
         then ((x ! (i + 1) - x ! i) * diff x y (i - 1) + (x ! i - x ! (i - 1)) * diff x y i)
              / (x ! (i + 1) - x ! (i - 1))
         else (wP * diff x y (i - 1) + wM * diff x y i) / (wP + wM))" .
  obtain ordered where "checkOrder x None False False = Inr ordered"
    using checkOrder_defaults by blast
  then have "interpolate (Some x) (Some y) = interpolateHermiteSorted x y (firstDerivatives x y)"
    using assms(1,2) by (simp add: interpolate_def MINIMUM_NUMBER_POINTS_def)
  with d show ?thesis by simp
qed

theorem interior_first_derivative_witness:
  "firstDerivatives (map Fin [10, 20, 30, 40, 50, 60, 70, 80]) (map Fin [40, 10, 17, 39, 99, 120, 30, 10]) ! 2 = Fin (36 / 25)"
proof -
  have "length (map Fin [40, 10, 17, 39, 99, 120, 30, 10]) = length (map Fin [10, 20, 30, 40, 50, 60, 70, 80])" "5 \<le> length (map Fin [10, 20, 30, 40, 50, 60, 70, 80])" "(2::nat) \<le> 2" "2 \<le> length (map Fin [10, 20, 30, 40, 50, 60, 70, 80]) - 3"
    by simp_all
  from interior_first_derivative [OF this]
  show ?thesis
    by (simp add: weight_def diff_def EPSILON_def Let_def)
qed

section \<open>The guards of the fit\<close>

lemma new_E_exported [simp]:
  "new_E ''NullArgumentException'' = Instance NullArgumentException"
  "new_E ''DimensionMismatchException'' = Instance DimensionMismatchException"
  "new_E ''NumberIsTooSmallException'' = Instance NumberIsTooSmallException"
  "new_E ''MathInternalError'' = Instance MathInternalError"
  by (simp_all add: new_E_def E_def)

lemma interpolate_null:
  "xv = None \<or> yv = None \<Longrightarrow> interpolate xv yv = Inl (Instance NullArgumentException)"
  by (auto simp: interpolate_def split: option.splits)

lemma createInterpolator_eq:
  assumes "length (cells h ry) = length (cells h rx)" and "5 \<le> length (cells h rx)"
  shows "createInterpolator h (Some rx) (Some ry) =
     Inr (h\<lparr>cells := (cells h)(fresh h := cells h rx), fresh := Suc (fresh h)\<rparr>,
          \<lparr>xValsCopy = fresh h,
           segmentCoeffs =
             map (\<lambda>i. Some (hermite_row (cells h rx) (cells h ry)
                               (firstDerivatives (cells h rx) (cells h ry)) i))
               [0 ..< length (cells h rx) - 1]\<rparr>)"
  by (simp add: createInterpolator_def interpolate_eq [OF assms] slice0_def)

lemma createInterpolator_fails_iff:
  "createInterpolator h xVals yVals = Inl e \<longleftrightarrow>
   interpolate (map_option (cells h) xVals) (map_option (cells h) yVals) = Inl e"
proof (cases "interpolate (map_option (cells h) xVals) (map_option (cells h) yVals)")
  case (Inl e')
  then show ?thesis by (simp add: createInterpolator_def)
next
  case (Inr c)
  have "xVals \<noteq> None"
  proof
    assume "xVals = None"
    then have "interpolate (map_option (cells h) xVals) (map_option (cells h) yVals) =
        Inl (Instance NullArgumentException)"
      by (intro interpolate_null) simp
    with Inr show False by simp
  qed
  with Inr show ?thesis
    by (auto simp: createInterpolator_def slice0_def)
qed

text \<open>
  Claim C7. The fit fails exactly when \<open>interpolate\<close> fails, and with the same error;
  \<open>interpolate\<close> fails with \<open>NullArgumentException\<close> when an array is absent, with
  \<open>DimensionMismatchException\<close> when the lengths differ, and with
  \<open>NumberIsTooSmallException\<close> when the common length is below 5, whatever the arrays
  hold (no derivative is computed before); with a common length of at least 5 it
  returns a table. A failed fit is an \<open>Inl\<close>: it holds no function.
\<close>

theorem fit_guards:
  "(\<forall>e. createInterpolator h xVals yVals = Inl e \<longleftrightarrow>
        interpolate (map_option (cells h) xVals) (map_option (cells h) yVals) = Inl e)
   \<and> (xv = None \<or> yv = None \<longrightarrow> interpolate xv yv = Inl (Instance NullArgumentException))
   \<and> (length x \<noteq> length y \<longrightarrow>
        interpolate (Some x) (Some y) = Inl (Instance DimensionMismatchException))
   \<and> (length x = length y \<and> length x < 5 \<longrightarrow>
        interpolate (Some x) (Some y) = Inl (Instance NumberIsTooSmallException))
   \<and> (length x = length y \<and> 5 \<le> length x \<longrightarrow>
        (\<exists>c. interpolate (Some x) (Some y) = Inr c))"
proof -
  have "interpolate (Some x) (Some y) = Inl (Instance DimensionMismatchException)"
    if "length x \<noteq> length y"
    using that by (simp add: interpolate_def)
  moreover have "interpolate (Some x) (Some y) = Inl (Instance NumberIsTooSmallException)"
    if "length x = length y \<and> length x < 5"
    using that by (simp add: interpolate_def MINIMUM_NUMBER_POINTS_def)
  moreover have "\<exists>c. interpolate (Some x) (Some y) = Inr c"
    if "length x = length y \<and> 5 \<le> length x"
    using that interpolate_eq [of y x] by simp
  ultimately show ?thesis
    using createInterpolator_fails_iff [of h xVals yVals] interpolate_null [of xv yv]
    by blast
qed

theorem fit_guards_witness:
  "interpolate None (Some (map Fin [1, 2, 3, 4, 5])) = Inl (Instance NullArgumentException)
   \<and> interpolate (Some (map Fin [1, 2, 3, 4, 5])) None = Inl (Instance NullArgumentException)
   \<and> interpolate (Some (map Fin [1, 2, 3, 4, 5])) (Some (map Fin [1, 2, 3])) =
       Inl (Instance DimensionMismatchException)
   \<and> interpolate (Some (map Fin [1, 2, 3, 4])) (Some (map Fin [1, 2, 3, 4])) =
       Inl (Instance NumberIsTooSmallException)
   \<and> (\<exists>c. interpolate (Some (map Fin [1, 2, 3, 4, 5])) (Some (map Fin [1, 4, 9, 16, 25])) = Inr c)"
  using fit_guards [of _ _ _ None "Some (map Fin [1, 2, 3, 4, 5])"]
    fit_guards [of _ _ _ "Some (map Fin [1, 2, 3, 4, 5])" None]
    fit_guards [of _ _ _ _ _ "map Fin [1, 2, 3, 4, 5]" "map Fin [1, 2, 3]"]
    fit_guards [of _ _ _ _ _ "map Fin [1, 2, 3, 4]" "map Fin [1, 2, 3, 4]"]
    fit_guards [of _ _ _ _ _ "map Fin [1, 2, 3, 4, 5]" "map Fin [1, 4, 9, 16, 25]"]
  by simp

text \<open>
  Claim C1 fails on the code. The knots \<open>[1, 2, 2, 4, 5]\<close> violate the strict increasing
  order, yet \<open>checkOrder\<close>, called as \<open>interpolate\<close> calls it (not strict, no abort),
  returns \<open>true\<close>, and the fit returns a table. The knots \<open>[1, 3, 2, 4, 5]\<close> are not
  increasing at all: \<open>checkOrder\<close> returns \<open>false\<close>, which \<open>interpolate\<close> drops, and the
  fit returns a table.
\<close>

theorem fit_accepts_unordered_knots:
  "violates_order (map Fin [1, 2, 2, 4, 5]) INCREASING True
   \<and> checkOrder (map Fin [1, 2, 2, 4, 5]) None False False = Inr True
   \<and> interpolate (Some (map Fin [1, 2, 2, 4, 5])) (Some (map Fin [1, 2, 3, 4, 5])) =
       Inr (projr (interpolate (Some (map Fin [1, 2, 2, 4, 5])) (Some (map Fin [1, 2, 3, 4, 5]))))
   \<and> violates_order (map Fin [1, 3, 2, 4, 5]) INCREASING False
   \<and> checkOrder (map Fin [1, 3, 2, 4, 5]) None False False = Inr False
   \<and> interpolate (Some (map Fin [1, 3, 2, 4, 5])) (Some (map Fin [1, 2, 3, 4, 5])) =
       Inr (projr (interpolate (Some (map Fin [1, 3, 2, 4, 5])) (Some (map Fin [1, 2, 3, 4, 5]))))"
proof -
  have "violates_order (map Fin [1, 2, 2, 4, 5]) INCREASING True" by code_simp
  moreover have "checkOrder (map Fin [1, 2, 2, 4, 5]) None False False = Inr True" by code_simp
  moreover have "interpolate (Some (map Fin [1, 2, 2, 4, 5])) (Some (map Fin [1, 2, 3, 4, 5])) =
       Inr (projr (interpolate (Some (map Fin [1, 2, 2, 4, 5])) (Some (map Fin [1, 2, 3, 4, 5]))))"
    by (subst (1 2) interpolate_eq) simp_all
  moreover have "violates_order (map Fin [1, 3, 2, 4, 5]) INCREASING False" by code_simp
  moreover have "checkOrder (map Fin [1, 3, 2, 4, 5]) None False False = Inr False" by code_simp
  moreover have "interpolate (Some (map Fin [1, 3, 2, 4, 5])) (Some (map Fin [1, 2, 3, 4, 5])) =
       Inr (projr (interpolate (Some (map Fin [1, 3, 2, 4, 5])) (Some (map Fin [1, 2, 3, 4, 5]))))"
    by (subst (1 2) interpolate_eq) simp_all
  ultimately show ?thesis by blast
qed

section \<open>The binary search\<close>

lemma ushr1_half:
  assumes "0 \<le> m" and "m < 2 ^ 32"
  shows "ushr1 m = m div 2"
proof -
  have "uint (word_of_int m :: 32 word) = m"
    using assms by (simp add: uint_word_of_int)
  then show ?thesis
    by (simp add: ushr1_def drop_bit_eq_div uint_div_distrib)
qed

lemma number_trichotomy:
  "x \<noteq> NaN \<Longrightarrow> y \<noteq> NaN \<Longrightarrow> x < y \<or> y < x \<or> x = (y :: number)"
  by (cases x; cases y) auto

lemma less_number_trans: "x < y \<Longrightarrow> y < z \<Longrightarrow> x < (z :: number)"
  by (cases x; cases y; cases z) auto

lemma less_number_irrefl [simp]: "\<not> x < (x :: number)"
  by (cases x) auto

lemma less_number_asym: "x < y \<Longrightarrow> \<not> y < (x :: number)"
  by (cases x; cases y) auto

lemma binarySearch_while_NaN:
  assumes "low \<le> high"
  shows "binarySearch_while a NaN low high = Some (Inl Error)"
  using assms by (subst binarySearch_while.simps) (simp add: Let_def js_eq_def)

text \<open>The midpoint of the search, for an array of at most \<open>2\<^sup>3\<^sup>1\<close> elements.\<close>

lemma midpoint:
  assumes "0 \<le> low" "low \<le> high" "high < int (length a)" "length a \<le> 2 ^ 31"
  shows "ushr1 (low + high) = (low + high) div 2"
    and "low \<le> (low + high) div 2" and "(low + high) div 2 \<le> high"
    and "nat ((low + high) div 2) < length a"
proof -
  have "int (length a) \<le> 2 ^ 31" using assms(4) by (metis of_nat_le_iff of_nat_numeral of_nat_power)
  then have "low + high < 2 ^ 32" using assms(2,3) by simp
  then show "ushr1 (low + high) = (low + high) div 2"
    using assms(1,2) by (intro ushr1_half) simp_all
  show "low \<le> (low + high) div 2" "(low + high) div 2 \<le> high"
    using assms(2) by simp_all
  then show "nat ((low + high) div 2) < length a"
    using assms(1,3) by simp
qed

lemma binarySearch_while_returns:
  assumes "NaN \<notin> set a" and "key \<noteq> NaN" and "length a \<le> 2 ^ 31"
    and "0 \<le> low" and "high < int (length a)" and "low \<le> high + 1"
  shows "\<exists>r. binarySearch_while a key low high = Some (Inr r)
             \<and> - int (length a) - 1 \<le> r \<and> r < int (length a)"
  using assms(4-6)
proof (induction "nat (high - low + 1)" arbitrary: low high rule: less_induct)
  case less
  show ?case
  proof (cases "low \<le> high")
    case False
    then show ?thesis
      using less.prems by (subst binarySearch_while.simps) simp
  next
    case True
    let ?mid = "(low + high) div 2"
    note m = midpoint [OF less.prems(1) True less.prems(2) assms(3)]
    have v: "a ! nat ?mid \<noteq> NaN" using m(4) assms(1) by (metis nth_mem)
    have up: "\<exists>r. binarySearch_while a key (?mid + 1) high = Some (Inr r)
             \<and> - int (length a) - 1 \<le> r \<and> r < int (length a)"
      using m less.prems True by (intro less.hyps) simp_all
    have down: "\<exists>r. binarySearch_while a key low (?mid - 1) = Some (Inr r)
             \<and> - int (length a) - 1 \<le> r \<and> r < int (length a)"
      using m less.prems True by (intro less.hyps) simp_all
    from number_trichotomy [OF v assms(2)]
    consider "a ! nat ?mid < key" | "\<not> a ! nat ?mid < key" "key < a ! nat ?mid"
      | "\<not> a ! nat ?mid < key" "\<not> key < a ! nat ?mid" "a ! nat ?mid = key"
      by blast
    then show ?thesis
    proof cases
      case 1
      with up True m show ?thesis
        by (subst binarySearch_while.simps) (simp add: Let_def)
    next
      case 2
      with down True m show ?thesis
        by (subst binarySearch_while.simps) (simp add: Let_def)
    next
      case 3
      with True m v less.prems show ?thesis
        by (subst binarySearch_while.simps) (simp add: Let_def js_eq_def)
    qed
  qed
qed

text \<open>
  On a strictly increasing array the search returns the index of the key, or
  \<open>-(p + 1)\<close> for the insertion point \<open>p\<close>: the elements before \<open>p\<close> are below
  the key and the others above.
\<close>

lemma binarySearch_while_sorted:
  assumes "sorted_wrt (<) a" and "NaN \<notin> set a" and "key \<noteq> NaN" and "length a \<le> 2 ^ 31"
    and "0 \<le> low" and "high < int (length a)" and "low \<le> high + 1"
    and "\<forall>i. int i < low \<longrightarrow> a ! i < key"
    and "\<forall>i. high < int i \<and> i < length a \<longrightarrow> key < a ! i"
  shows "(\<exists>j < length a. a ! j = key \<and> binarySearch_while a key low high = Some (Inr (int j)))
       \<or> (\<exists>p \<le> length a. binarySearch_while a key low high = Some (Inr (- (int p + 1)))
              \<and> (\<forall>i < p. a ! i < key) \<and> (\<forall>i. p \<le> i \<and> i < length a \<longrightarrow> key < a ! i))"
  using assms(5-9)
proof (induction "nat (high - low + 1)" arbitrary: low high rule: less_induct)
  case less
  show ?case
  proof (cases "low \<le> high")
    case False
    then have eq: "low = high + 1" using less.prems(3) by simp
    have "nat low \<le> length a" using less.prems(1,2) eq by simp
    moreover have "binarySearch_while a key low high = Some (Inr (- (int (nat low) + 1)))"
      using False less.prems(1) by (subst binarySearch_while.simps) simp
    moreover have "\<forall>i < nat low. a ! i < key" using less.prems(4) by simp
    moreover have "\<forall>i. nat low \<le> i \<and> i < length a \<longrightarrow> key < a ! i"
    proof (intro allI impI)
      fix i assume "nat low \<le> i \<and> i < length a"
      then have "high < int i \<and> i < length a" using eq by linarith
      then show "key < a ! i" using less.prems(5) by blast
    qed
    ultimately show ?thesis by blast
  next
    case True
    let ?mid = "(low + high) div 2"
    note m = midpoint [OF less.prems(1) True less.prems(2) assms(4)]
    have mid0: "0 \<le> ?mid" using m(2) less.prems(1) by simp
    have v: "a ! nat ?mid \<noteq> NaN" using m(4) assms(2) by (metis nth_mem)
    from number_trichotomy [OF v assms(3)]
    consider "a ! nat ?mid < key" | "\<not> a ! nat ?mid < key" "key < a ! nat ?mid"
      | "\<not> a ! nat ?mid < key" "\<not> key < a ! nat ?mid" "a ! nat ?mid = key"
      by blast
    then show ?thesis
    proof cases
      case 1
      have below: "\<forall>i. int i < ?mid + 1 \<longrightarrow> a ! i < key"
      proof (intro allI impI)
        fix i assume i: "int i < ?mid + 1"
        show "a ! i < key"
        proof (cases "i = nat ?mid")
          case True
          with 1 show ?thesis by simp
        next
          case False
          with i mid0 have "i < nat ?mid" by simp
          then have "a ! i < a ! nat ?mid"
            using assms(1) m(4) by (simp add: sorted_wrt_nth_less)
          then show ?thesis using 1 by (rule less_number_trans)
        qed
      qed
      have "(\<exists>j < length a. a ! j = key \<and> binarySearch_while a key (?mid + 1) high = Some (Inr (int j)))
       \<or> (\<exists>p \<le> length a. binarySearch_while a key (?mid + 1) high = Some (Inr (- (int p + 1)))
              \<and> (\<forall>i < p. a ! i < key) \<and> (\<forall>i. p \<le> i \<and> i < length a \<longrightarrow> key < a ! i))"
        using m less.prems True below by (intro less.hyps) simp_all
      moreover have "binarySearch_while a key low high = binarySearch_while a key (?mid + 1) high"
        using 1 True m by (subst binarySearch_while.simps) (simp add: Let_def)
      ultimately show ?thesis by simp
    next
      case 2
      have above: "\<forall>i. ?mid - 1 < int i \<and> i < length a \<longrightarrow> key < a ! i"
      proof (intro allI impI)
        fix i assume i: "?mid - 1 < int i \<and> i < length a"
        show "key < a ! i"
        proof (cases "i = nat ?mid")
          case True
          with 2 show ?thesis by simp
        next
          case False
          with i mid0 have "nat ?mid < i" by linarith
          then have "a ! nat ?mid < a ! i"
            using assms(1) i by (simp add: sorted_wrt_nth_less)
          with 2(2) show ?thesis by (rule less_number_trans)
        qed
      qed
      have "(\<exists>j < length a. a ! j = key \<and> binarySearch_while a key low (?mid - 1) = Some (Inr (int j)))
       \<or> (\<exists>p \<le> length a. binarySearch_while a key low (?mid - 1) = Some (Inr (- (int p + 1)))
              \<and> (\<forall>i < p. a ! i < key) \<and> (\<forall>i. p \<le> i \<and> i < length a \<longrightarrow> key < a ! i))"
        using m less.prems True above by (intro less.hyps) simp_all
      moreover have "binarySearch_while a key low high = binarySearch_while a key low (?mid - 1)"
        using 2 True m by (subst binarySearch_while.simps) (simp add: Let_def)
      ultimately show ?thesis by simp
    next
      case 3
      have "binarySearch_while a key low high = Some (Inr (int (nat ?mid)))"
        using 3 True m v mid0 by (subst binarySearch_while.simps) (simp add: Let_def js_eq_def)
      with 3(3) m(4) show ?thesis by blast
    qed
  qed
qed

lemma binarySearch_sorted:
  assumes "sorted_wrt (<) a" and "NaN \<notin> set a" and "key \<noteq> NaN" and "length a \<le> 2 ^ 31"
  shows "(\<exists>j < length a. a ! j = key \<and> binarySearch a key = Some (Inr (int j)))
       \<or> (\<exists>p \<le> length a. binarySearch a key = Some (Inr (- (int p + 1)))
              \<and> (\<forall>i < p. a ! i < key) \<and> (\<forall>i. p \<le> i \<and> i < length a \<longrightarrow> key < a ! i))"
  unfolding binarySearch_def
  using assms by (intro binarySearch_while_sorted) auto

lemma binarySearch_returns:
  assumes "NaN \<notin> set a" and "key \<noteq> NaN" and "length a \<le> 2 ^ 31"
  shows "\<exists>r. binarySearch a key = Some (Inr r) \<and> - int (length a) - 1 \<le> r \<and> r < int (length a)"
  unfolding binarySearch_def
  using assms by (intro binarySearch_while_returns) simp_all

lemma binarySearch_NaN:
  assumes "a \<noteq> []"
  shows "binarySearch a NaN = Some (Inl Error)"
  unfolding binarySearch_def
  using assms by (intro binarySearch_while_NaN) (simp add: Suc_le_eq)

section \<open>Evaluation\<close>

lemma evaluatePolynomial_cubic:
  "evaluatePolynomial [c0, c1, c2, c3] t = ((c3 * t + c2) * t + c1) * t + c0"
proof -
  have "evaluatePolynomial [c0, c1, c2, c3] t = t * (t * (t * c3 + c2) + c1) + c0"
    by (simp add: evaluatePolynomial_def evaluatePolynomial_for.simps)
  then show ?thesis
    by (simp add: times_number_commute)
qed

lemma createInterpolator_InrD:
  assumes "createInterpolator h (Some rx) (Some ry) = Inr (h', f)"
  shows "length (cells h ry) = length (cells h rx)" and "5 \<le> length (cells h rx)"
    and "h' = h\<lparr>cells := (cells h)(fresh h := cells h rx), fresh := Suc (fresh h)\<rparr>"
    and "xValsCopy f = fresh h"
    and "segmentCoeffs f =
           map (\<lambda>i. Some (hermite_row (cells h rx) (cells h ry)
                             (firstDerivatives (cells h rx) (cells h ry)) i))
             [0 ..< length (cells h rx) - 1]"
proof -
  have g: "length (cells h ry) = length (cells h rx) \<and> 5 \<le> length (cells h rx)"
  proof (rule ccontr)
    assume "\<not> ?thesis"
    then have "\<exists>e. interpolate (Some (cells h rx)) (Some (cells h ry)) = Inl e"
      by (auto simp: interpolate_def MINIMUM_NUMBER_POINTS_def)
    then show False using assms by (auto simp: createInterpolator_def)
  qed
  then show "length (cells h ry) = length (cells h rx)" "5 \<le> length (cells h rx)"
    by simp_all
  from g assms createInterpolator_eq [of h ry rx]
  show "h' = h\<lparr>cells := (cells h)(fresh h := cells h rx), fresh := Suc (fresh h)\<rparr>"
    and "xValsCopy f = fresh h"
    and "segmentCoeffs f =
           map (\<lambda>i. Some (hermite_row (cells h rx) (cells h ry)
                             (firstDerivatives (cells h rx) (cells h ry)) i))
             [0 ..< length (cells h rx) - 1]"
    by auto
qed

text \<open>The returned function reads its own copy of the knots, as they were at the fit.\<close>

lemma call_fitted:
  assumes "createInterpolator h (Some rx) (Some ry) = Inr (h', f)"
  shows "call h' f q = evaluatePolynomialSegment (cells h rx) (segmentCoeffs f) q"
  using createInterpolator_InrD(3,4) [OF assms] by (simp add: call_def)

text \<open>From the result of the search to the value: the clamped row, evaluated.\<close>

lemma evaluatePolynomialSegment_row:
  assumes "binarySearch xVals q = Some (Inr r)"
    and "k = nat (max 0 (min (if r < 0 then - r - 2 else r) (int (length coeffs) - 1)))"
    and "k < length coeffs" and "coeffs ! k = Some [c0, c1, c2, c3]"
  shows "evaluatePolynomialSegment xVals coeffs q =
     Some (Inr (((c3 * (q - js_nth xVals k) + c2) * (q - js_nth xVals k) + c1)
                  * (q - js_nth xVals k) + c0))"
  using assms
  by (simp add: evaluatePolynomialSegment_def Let_def evaluatePolynomial_cubic)

lemma fitted_row:
  assumes "createInterpolator h (Some rx) (Some ry) = Inr (h', f)"
    and "k < length (cells h rx) - 1"
  shows "length (segmentCoeffs f) = length (cells h rx) - 1"
    and "segmentCoeffs f ! k =
      Some (hermite_row (cells h rx) (cells h ry) (firstDerivatives (cells h rx) (cells h ry)) k)"
  using assms(2) by (simp_all add: createInterpolator_InrD(5) [OF assms(1)])

section \<open>The fit of the README's example\<close>

lemma readme_cells [simp]:
  "cells readme_heap 0 = readme_xvals" "cells readme_heap 1 = readme_yvals"
  "cells readme_heap (Suc 0) = readme_yvals"
  by (simp_all add: readme_heap_def)

lemma readme_lengths [simp]: "length readme_xvals = 8" "length readme_yvals = 8"
  by (simp_all add: readme_xvals_def readme_yvals_def)

lemma readme_fit_eq:
  "createInterpolator readme_heap (Some 0) (Some 1) = Inr (fst readme_fit, snd readme_fit)"
  unfolding readme_fit_def
  by (subst (1 2 3) createInterpolator_eq) simp_all

lemma readme_no_NaN: "NaN \<notin> set readme_xvals"
  by (auto simp: readme_xvals_def)

section \<open>Totality of the returned function\<close>

lemma evaluatePolynomialSegment_returns:
  assumes "binarySearch xVals q = Some (Inr r)"
    and "- int (length xVals) - 1 \<le> r" and "r < int (length xVals)"
    and "length coeffs = length xVals - 1" and "2 \<le> length xVals"
    and "\<forall>k < length coeffs. coeffs ! k \<noteq> None"
  shows "\<exists>v. evaluatePolynomialSegment xVals coeffs q = Some (Inr v)"
proof -
  let ?k = "nat (max 0 (min (if r < 0 then - r - 2 else r) (int (length coeffs) - 1)))"
  have "?k < length coeffs" using assms(4,5) by auto
  with assms(6) obtain c where "coeffs ! ?k = Some c" by auto
  with \<open>?k < length coeffs\<close> show ?thesis
    using assms(1) by (simp add: evaluatePolynomialSegment_def Let_def)
qed

text \<open>
  Claim C8, as amended. After a successful fit whose knots hold no \<open>NaN\<close> (and are at
  most \<open>2\<^sup>3\<^sup>1\<close>), the returned function returns a value, without throwing, for every
  query that is not \<open>NaN\<close>; for the query \<open>NaN\<close> it throws the \<open>Error\<close> of the binary
  search.
\<close>

theorem evaluate_returns_on_numbers:
  assumes "createInterpolator h (Some rx) (Some ry) = Inr (h', f)"
    and "NaN \<notin> set (cells h rx)" and "length (cells h rx) \<le> 2 ^ 31"
  shows "(q \<noteq> NaN \<longrightarrow> (\<exists>v. call h' f q = Some (Inr v)))
       \<and> call h' f NaN = Some (Inl Error)"
proof -
  note fit = createInterpolator_InrD [OF assms(1)]
  have nonempty: "cells h rx \<noteq> []" using fit(2) by auto
  have "call h' f NaN = Some (Inl Error)"
    by (simp add: call_fitted [OF assms(1)] evaluatePolynomialSegment_def
        binarySearch_NaN [OF nonempty])
  moreover have "\<exists>v. call h' f q = Some (Inr v)" if "q \<noteq> NaN"
  proof -
    from binarySearch_returns [OF assms(2) that assms(3)]
    obtain r where r: "binarySearch (cells h rx) q = Some (Inr r)"
        "- int (length (cells h rx)) - 1 \<le> r" "r < int (length (cells h rx))"
      by blast
    have "\<exists>v. evaluatePolynomialSegment (cells h rx) (segmentCoeffs f) q = Some (Inr v)"
      using r fit(2) by (intro evaluatePolynomialSegment_returns) (simp_all add: fit(5))
    then show ?thesis by (simp add: call_fitted [OF assms(1)])
  qed
  ultimately show ?thesis by simp
qed

theorem evaluate_returns_on_numbers_witness:
  "(\<exists>v. call (fst readme_fit) (snd readme_fit) (Fin 45) = Some (Inr v))
   \<and> call (fst readme_fit) (snd readme_fit) NaN = Some (Inl Error)"
proof -
  have "NaN \<notin> set (cells readme_heap 0)" "length (cells readme_heap 0) \<le> 2 ^ 31"
    by (simp_all add: readme_no_NaN)
  from evaluate_returns_on_numbers [OF readme_fit_eq this, of "Fin 45"]
  show ?thesis by simp
qed

lemma binarySearch_NaN_knot:
  "binarySearch (map Fin [1, 2] @ NaN # map Fin [4, 5]) (Fin 3) = Some (Inl Error)"
proof -
  have "ushr1 4 = 2" by (subst ushr1_half) simp_all
  then show ?thesis
    unfolding binarySearch_def
    by (subst binarySearch_while.simps) (simp add: Let_def js_eq_def js_nth_def)
qed

text \<open>
  Claim C8 as stated fails: the function fitted to the README's example throws on the
  query \<open>NaN\<close>; and the fit accepts the knots \<open>[1, 2, NaN, 4, 5]\<close>, after which the
  query 3 throws, the search reading the knot \<open>NaN\<close> first.
\<close>

theorem evaluate_throws_on_NaN:
  "createInterpolator readme_heap (Some 0) (Some 1) = Inr (fst readme_fit, snd readme_fit)
   \<and> call (fst readme_fit) (snd readme_fit) NaN = Some (Inl Error)
   \<and> interpolate (Some (map Fin [1, 2] @ NaN # map Fin [4, 5])) (Some (map Fin [1, 2, 3, 4, 5])) =
       Inr (projr (interpolate (Some (map Fin [1, 2] @ NaN # map Fin [4, 5]))
                     (Some (map Fin [1, 2, 3, 4, 5]))))
   \<and> evaluatePolynomialSegment (map Fin [1, 2] @ NaN # map Fin [4, 5])
         (projr (interpolate (Some (map Fin [1, 2] @ NaN # map Fin [4, 5]))
                   (Some (map Fin [1, 2, 3, 4, 5]))))
         (Fin 3) = Some (Inl Error)"
proof -
  have "binarySearch readme_xvals NaN = Some (Inl Error)"
    by (rule binarySearch_NaN) (simp add: readme_xvals_def)
  then have "call (fst readme_fit) (snd readme_fit) NaN = Some (Inl Error)"
    by (simp add: call_fitted [OF readme_fit_eq] evaluatePolynomialSegment_def)
  moreover have "interpolate (Some (map Fin [1, 2] @ NaN # map Fin [4, 5]))
        (Some (map Fin [1, 2, 3, 4, 5])) =
       Inr (projr (interpolate (Some (map Fin [1, 2] @ NaN # map Fin [4, 5]))
                     (Some (map Fin [1, 2, 3, 4, 5]))))"
    by (subst (1 2) interpolate_eq) simp_all
  moreover have "evaluatePolynomialSegment (map Fin [1, 2] @ NaN # map Fin [4, 5]) c (Fin 3) =
      Some (Inl Error)" for c
    by (simp only: evaluatePolynomialSegment_def binarySearch_NaN_knot) simp
  ultimately show ?thesis using readme_fit_eq by simp
qed

section \<open>Segment selection\<close>

lemma sorted_map_Fin:
  assumes "sorted_wrt (<) (xs :: real list)"
  shows "sorted_wrt (<) (map Fin xs)" and "NaN \<notin> set (map Fin xs)"
  using assms by (auto simp: sorted_wrt_map)

text \<open>
  Claim C6, as amended. For a spline fitted to strictly increasing real knots \<open>xs\<close> and a query
  \<open>q\<close> that is not \<open>NaN\<close>, the returned function evaluates one row \<open>k\<close> of the table by
  Horner's rule at the offset \<open>q - xs[k]\<close>. The binary search finds the knot \<open>j\<close> equal
  to \<open>q\<close>, and then \<open>k\<close> is \<open>j\<close>, or the last segment \<open>n - 2\<close> for the last knot; or
  it finds the insertion point \<open>p\<close>, and then \<open>k\<close> is the segment \<open>p - 1\<close> left of it,
  kept between the first segment and the last. So a query below the first knot takes
  segment 0 and a query above the last knot takes segment \<open>n - 2\<close>, and both return a
  value.
\<close>

theorem evaluate_selects_segment:
  fixes xs :: "real list"
  assumes "createInterpolator h (Some rx) (Some ry) = Inr (h', f)"
    and "cells h rx = map Fin xs" and "sorted_wrt (<) xs" and "length xs \<le> 2 ^ 31"
    and "q \<noteq> NaN"
  shows "\<exists>k c0 c1 c2 c3.
       k < length xs - 1 \<and> segmentCoeffs f ! k = Some [c0, c1, c2, c3]
     \<and> call h' f q =
         Some (Inr (((c3 * (q - Fin (xs ! k)) + c2) * (q - Fin (xs ! k)) + c1)
                      * (q - Fin (xs ! k)) + c0))
     \<and> (\<forall>j < length xs. q = Fin (xs ! j) \<longrightarrow>
            binarySearch (map Fin xs) q = Some (Inr (int j)) \<and> k = min j (length xs - 2))
     \<and> ((\<forall>j < length xs. q \<noteq> Fin (xs ! j)) \<longrightarrow>
            (\<exists>p \<le> length xs. binarySearch (map Fin xs) q = Some (Inr (- (int p + 1)))
                \<and> (\<forall>i < p. Fin (xs ! i) < q)
                \<and> (\<forall>i. p \<le> i \<and> i < length xs \<longrightarrow> q < Fin (xs ! i))
                \<and> k = min (p - 1) (length xs - 2)))
     \<and> (q < Fin (xs ! 0) \<longrightarrow> k = 0)
     \<and> (Fin (xs ! (length xs - 1)) < q \<longrightarrow> k = length xs - 2)"
proof -
  let ?n = "length xs"
  note fit = createInterpolator_InrD [OF assms(1)]
  have n: "5 \<le> ?n" using fit(2) assms(2) by simp
  have len: "length (segmentCoeffs f) = ?n - 1"
    using fit(5) assms(2) by simp
  have row: "\<exists>c0 c1 c2 c3. segmentCoeffs f ! k = Some [c0, c1, c2, c3]" if "k < ?n - 1" for k
    using that fitted_row(2) [OF assms(1), of k] assms(2) by (simp add: hermite_row_def Let_def)
  have srt: "sorted_wrt (<) (map Fin xs)" "NaN \<notin> set (map Fin xs)"
    using sorted_map_Fin [OF assms(3)] by simp_all
  have inj: "i = j" if "i < ?n" "j < ?n" "xs ! i = xs ! j" for i j
    using that assms(3) by (metis sorted_wrt_nth_less less_irrefl nat_neq_iff)
  have val: "call h' f q =
         Some (Inr (((c3 * (q - Fin (xs ! k)) + c2) * (q - Fin (xs ! k)) + c1)
                      * (q - Fin (xs ! k)) + c0))"
    if "binarySearch (map Fin xs) q = Some (Inr r)"
      and "k = nat (max 0 (min (if r < 0 then - r - 2 else r) (int ?n - 2)))"
      and "k < ?n - 1" and "segmentCoeffs f ! k = Some [c0, c1, c2, c3]"
    for r k c0 c1 c2 c3
  proof -
    have l: "int (length (segmentCoeffs f)) - 1 = int ?n - 2" using len n by simp
    have jk: "js_nth (map Fin xs) k = Fin (xs ! k)" using that(3) by simp
    have "evaluatePolynomialSegment (map Fin xs) (segmentCoeffs f) q =
       Some (Inr (((c3 * (q - js_nth (map Fin xs) k) + c2) * (q - js_nth (map Fin xs) k) + c1)
                  * (q - js_nth (map Fin xs) k) + c0))"
    proof (rule evaluatePolynomialSegment_row [OF that(1) _ _ that(4)])
      show "k = nat (max 0 (min (if r < 0 then - r - 2 else r)
                (int (length (segmentCoeffs f)) - 1)))"
        unfolding l by (rule that(2))
      show "k < length (segmentCoeffs f)" using that(3) len by simp
    qed
    then show ?thesis
      unfolding jk by (simp add: call_fitted [OF assms(1)] assms(2))
  qed
  from binarySearch_sorted [OF srt assms(5)] assms(4)
  consider j where "j < ?n" "Fin (xs ! j) = q" "binarySearch (map Fin xs) q = Some (Inr (int j))"
    | p where "p \<le> ?n" "binarySearch (map Fin xs) q = Some (Inr (- (int p + 1)))"
        "\<forall>i < p. Fin (xs ! i) < q" "\<forall>i. p \<le> i \<and> i < ?n \<longrightarrow> q < Fin (xs ! i)"
    by auto
  then show ?thesis
  proof cases
    case 1
    let ?k = "min j (?n - 2)"
    have k: "?k < ?n - 1" using n by simp
    from row [OF k] obtain c0 c1 c2 c3 where c: "segmentCoeffs f ! ?k = Some [c0, c1, c2, c3]"
      by blast
    have kr: "?k = nat (max 0 (min (if int j < 0 then - int j - 2 else int j) (int ?n - 2)))"
      using n by simp
    have uniq: "j' = j" if "j' < ?n" "q = Fin (xs ! j')" for j'
      using that 1(1,2) inj by auto
    have lo: "\<not> q < Fin (xs ! 0)"
    proof
      assume "q < Fin (xs ! 0)"
      then have "xs ! j < xs ! 0" using 1(2) by auto
      moreover have "xs ! 0 \<le> xs ! j"
        using assms(3) 1(1) by (cases "j = 0") (auto simp: sorted_wrt_nth_less less_imp_le)
      ultimately show False by simp
    qed
    have hi: "?k = ?n - 2" if "Fin (xs ! (?n - 1)) < q"
    proof -
      have "xs ! (?n - 1) < xs ! j" using that 1(2) by auto
      moreover have "xs ! j \<le> xs ! (?n - 1)"
        using assms(3) 1(1) n by (cases "j = ?n - 1") (auto simp: sorted_wrt_nth_less less_imp_le)
      ultimately show ?thesis by simp
    qed
    have found: "\<forall>j' < ?n. q = Fin (xs ! j') \<longrightarrow>
        binarySearch (map Fin xs) q = Some (Inr (int j')) \<and> ?k = min j' (?n - 2)"
      using uniq 1(3) by blast
    have missing: "(\<forall>j' < ?n. q \<noteq> Fin (xs ! j')) \<longrightarrow>
        (\<exists>p \<le> ?n. binarySearch (map Fin xs) q = Some (Inr (- (int p + 1)))
            \<and> (\<forall>i < p. Fin (xs ! i) < q)
            \<and> (\<forall>i. p \<le> i \<and> i < ?n \<longrightarrow> q < Fin (xs ! i))
            \<and> ?k = min (p - 1) (?n - 2))"
      using 1(1,2) by blast
    have below: "q < Fin (xs ! 0) \<longrightarrow> ?k = 0" using lo by blast
    have above: "Fin (xs ! (?n - 1)) < q \<longrightarrow> ?k = ?n - 2" using hi by blast
    show ?thesis
      apply (rule exI [of _ ?k], rule exI [of _ c0], rule exI [of _ c1],
          rule exI [of _ c2], rule exI [of _ c3])
      apply (intro conjI)
            apply (rule k)
           apply (rule c)
          apply (rule val [OF 1(3) kr k c])
         apply (rule found)
        apply (rule missing)
       apply (rule below)
      apply (rule above)
      done
  next
    case 2
    let ?k = "min (p - 1) (?n - 2)"
    have k: "?k < ?n - 1" using n by simp
    from row [OF k] obtain c0 c1 c2 c3 where c: "segmentCoeffs f ! ?k = Some [c0, c1, c2, c3]"
      by blast
    have kr: "?k = nat (max 0 (min (if - (int p + 1) < 0 then - (- (int p + 1)) - 2 else - (int p + 1))
                 (int ?n - 2)))"
      using n by auto
    have nomatch: "q \<noteq> Fin (xs ! j)" if "j < ?n" for j
    proof (cases "j < p")
      case True
      with 2(3) have "Fin (xs ! j) < q" by simp
      then show ?thesis by auto
    next
      case False
      with 2(4) that have "q < Fin (xs ! j)" by simp
      then show ?thesis by auto
    qed
    have lo: "?k = 0" if "q < Fin (xs ! 0)"
    proof -
      have "\<not> 0 < p"
      proof
        assume "0 < p"
        with 2(3) have "Fin (xs ! 0) < q" by simp
        with that show False by (simp add: less_number_asym)
      qed
      then show ?thesis by simp
    qed
    have hi: "?k = ?n - 2" if "Fin (xs ! (?n - 1)) < q"
    proof -
      have "\<not> p \<le> ?n - 1"
      proof
        assume "p \<le> ?n - 1"
        with 2(4) n have "q < Fin (xs ! (?n - 1))" by simp
        with that show False by (simp add: less_number_asym)
      qed
      then show ?thesis using 2(1) by simp
    qed
    have found: "\<forall>j < ?n. q = Fin (xs ! j) \<longrightarrow>
        binarySearch (map Fin xs) q = Some (Inr (int j)) \<and> ?k = min j (?n - 2)"
      using nomatch by blast
    have missing: "(\<forall>j < ?n. q \<noteq> Fin (xs ! j)) \<longrightarrow>
        (\<exists>p \<le> ?n. binarySearch (map Fin xs) q = Some (Inr (- (int p + 1)))
            \<and> (\<forall>i < p. Fin (xs ! i) < q)
            \<and> (\<forall>i. p \<le> i \<and> i < ?n \<longrightarrow> q < Fin (xs ! i))
            \<and> ?k = min (p - 1) (?n - 2))"
      using 2 by blast
    have below: "q < Fin (xs ! 0) \<longrightarrow> ?k = 0" using lo by blast
    have above: "Fin (xs ! (?n - 1)) < q \<longrightarrow> ?k = ?n - 2" using hi by blast
    show ?thesis
      apply (rule exI [of _ ?k], rule exI [of _ c0], rule exI [of _ c1],
          rule exI [of _ c2], rule exI [of _ c3])
      apply (intro conjI)
            apply (rule k)
           apply (rule c)
          apply (rule val [OF 2(2) kr k c])
         apply (rule found)
        apply (rule missing)
       apply (rule below)
      apply (rule above)
      done
  qed
qed

theorem evaluate_selects_segment_witness:
  "\<exists>k c0 c1 c2 c3.
       k < length [10, 20, 30, 40, 50, 60, 70, 80 :: real] - 1 \<and> segmentCoeffs (snd readme_fit) ! k = Some [c0, c1, c2, c3]
     \<and> call (fst readme_fit) (snd readme_fit) (Fin 45) =
         Some (Inr (((c3 * ((Fin 45) - Fin ([10, 20, 30, 40, 50, 60, 70, 80 :: real] ! k)) + c2) * ((Fin 45) - Fin ([10, 20, 30, 40, 50, 60, 70, 80 :: real] ! k)) + c1)
                      * ((Fin 45) - Fin ([10, 20, 30, 40, 50, 60, 70, 80 :: real] ! k)) + c0))
     \<and> (\<forall>j < length [10, 20, 30, 40, 50, 60, 70, 80 :: real]. (Fin 45) = Fin ([10, 20, 30, 40, 50, 60, 70, 80 :: real] ! j) \<longrightarrow>
            binarySearch (map Fin [10, 20, 30, 40, 50, 60, 70, 80 :: real]) (Fin 45) = Some (Inr (int j)) \<and> k = min j (length [10, 20, 30, 40, 50, 60, 70, 80 :: real] - 2))
     \<and> ((\<forall>j < length [10, 20, 30, 40, 50, 60, 70, 80 :: real]. (Fin 45) \<noteq> Fin ([10, 20, 30, 40, 50, 60, 70, 80 :: real] ! j)) \<longrightarrow>
            (\<exists>p \<le> length [10, 20, 30, 40, 50, 60, 70, 80 :: real]. binarySearch (map Fin [10, 20, 30, 40, 50, 60, 70, 80 :: real]) (Fin 45) = Some (Inr (- (int p + 1)))
                \<and> (\<forall>i < p. Fin ([10, 20, 30, 40, 50, 60, 70, 80 :: real] ! i) < (Fin 45))
                \<and> (\<forall>i. p \<le> i \<and> i < length [10, 20, 30, 40, 50, 60, 70, 80 :: real] \<longrightarrow> (Fin 45) < Fin ([10, 20, 30, 40, 50, 60, 70, 80 :: real] ! i))
                \<and> k = min (p - 1) (length [10, 20, 30, 40, 50, 60, 70, 80 :: real] - 2)))
     \<and> ((Fin 45) < Fin ([10, 20, 30, 40, 50, 60, 70, 80 :: real] ! 0) \<longrightarrow> k = 0)
     \<and> (Fin ([10, 20, 30, 40, 50, 60, 70, 80 :: real] ! (length [10, 20, 30, 40, 50, 60, 70, 80 :: real] - 1)) < (Fin 45) \<longrightarrow> k = length [10, 20, 30, 40, 50, 60, 70, 80 :: real] - 2)"
  by (rule evaluate_selects_segment [OF readme_fit_eq]) (simp_all add: readme_xvals_def)

text \<open>
  Claim C6 as stated fails for the query \<open>NaN\<close>: on the knots of the README's example
  the binary search throws, and so does the evaluation, whatever the table; no segment
  is selected.
\<close>

theorem evaluate_selects_no_segment_for_NaN:
  "binarySearch readme_xvals NaN = Some (Inl Error)
   \<and> evaluatePolynomialSegment readme_xvals (segmentCoeffs (snd readme_fit)) NaN = Some (Inl Error)"
proof -
  have "binarySearch readme_xvals NaN = Some (Inl Error)"
    by (rule binarySearch_NaN) (simp add: readme_xvals_def)
  then show ?thesis by (simp add: evaluatePolynomialSegment_def)
qed

section \<open>Later writes to the caller's arrays\<close>

text \<open>
  Claim C9. The arrays passed to a successful fit were allocated before it (their
  addresses are below \<open>fresh\<close>). Whatever the caller writes to them afterwards, one
  assignment \<open>a[i] = v\<close> or any new contents \<open>xs'\<close> and \<open>ys'\<close>, the returned function
  gives at every query the result it gave before: it reads its own copy of the knots,
  at a fresh address, and the table of the fit.
\<close>

theorem fitted_function_ignores_later_writes:
  assumes "createInterpolator h (Some rx) (Some ry) = Inr (h', f)"
    and "rx < fresh h" and "ry < fresh h"
  shows "call (assign h' rx i v) f q = call h' f q
       \<and> call (assign h' ry i v) f q = call h' f q
       \<and> call (h'\<lparr>cells := (cells h')(rx := xs', ry := ys')\<rparr>) f q = call h' f q"
proof -
  have "xValsCopy f = fresh h" by (rule createInterpolator_InrD(4) [OF assms(1)])
  then have "xValsCopy f \<noteq> rx" "xValsCopy f \<noteq> ry" using assms(2,3) by simp_all
  then show ?thesis by (simp add: call_def assign_def)
qed

theorem fitted_function_ignores_later_writes_witness:
  "call (assign (fst readme_fit) 0 3 (Fin 1000)) (snd readme_fit) (Fin 45) =
     call (fst readme_fit) (snd readme_fit) (Fin 45)
   \<and> call (assign (fst readme_fit) 1 3 (Fin 1000)) (snd readme_fit) (Fin 45) =
     call (fst readme_fit) (snd readme_fit) (Fin 45)
   \<and> call ((fst readme_fit)\<lparr>cells := (cells (fst readme_fit))(0 := [], 1 := [NaN])\<rparr>)
        (snd readme_fit) (Fin 45) =
     call (fst readme_fit) (snd readme_fit) (Fin 45)"
proof -
  have "(0::nat) < fresh readme_heap" "1 < fresh readme_heap"
    by (simp_all add: readme_heap_def)
  from fitted_function_ignores_later_writes [OF readme_fit_eq this]
  show ?thesis by blast
qed

section \<open>Finite knots and values\<close>

lemma is_finite_iff: "is_finite x \<longleftrightarrow> (\<exists>a. x = Fin a)"
  by (cases x) auto

lemma sorted_distinct_nth:
  fixes xs :: "real list"
  assumes "sorted_wrt (<) xs" and "i < j" and "j < length xs"
  shows "xs ! i < xs ! j" and "xs ! j - xs ! i \<noteq> 0" and "xs ! i \<noteq> xs ! j"
  using sorted_wrt_nth_less [OF assms] by simp_all

lemma diff_Fin:
  fixes xs ys :: "real list"
  assumes "sorted_wrt (<) xs" and "length ys = length xs" and "Suc j < length xs"
  shows "diff (map Fin xs) (map Fin ys) j =
           Fin ((ys ! (j + 1) - ys ! j) / (xs ! (j + 1) - xs ! j))"
proof -
  have "xs ! (j + 1) - xs ! j \<noteq> 0"
    using sorted_distinct_nth(2) [OF assms(1), of j "j + 1"] assms(3) by simp
  then show ?thesis using assms(2,3) by (simp add: diff_def)
qed

lemma weight_Fin:
  fixes xs ys :: "real list"
  assumes "sorted_wrt (<) xs" and "length ys = length xs" and "1 \<le> j" and "Suc j < length xs"
  shows "\<exists>a. 0 \<le> a \<and> weight (map Fin xs) (map Fin ys) j = Fin a"
proof -
  have "Suc (j - 1) < length xs" using assms(3,4) by simp
  from diff_Fin [OF assms(1,2,4)] diff_Fin [OF assms(1,2) this]
  show ?thesis by (simp add: weight_def)
qed

lemma firstDerivatives_interior_finite:
  fixes xs ys :: "real list"
  assumes "sorted_wrt (<) xs" and "length ys = length xs" and "5 \<le> length xs"
    and "2 \<le> i" and "i < length xs - 2"
  shows "is_finite (firstDerivatives (map Fin xs) (map Fin ys) ! i)"
proof -
  have l: "length (map Fin ys) = length (map Fin xs)" "5 \<le> length (map Fin xs)"
      "i < length (map Fin xs) - 2"
    using assms by simp_all
  have i2: "Suc (i + 1) < length xs" "1 \<le> i + 1" "1 \<le> i - 1" "Suc (i - 1) < length xs"
    using assms(4,5) by (simp_all add: less_diff_conv)
  obtain wP where wP: "0 \<le> wP" "weight (map Fin xs) (map Fin ys) (i + 1) = Fin wP"
    using weight_Fin [OF assms(1,2) i2(2,1)] by blast
  obtain wM where wM: "0 \<le> wM" "weight (map Fin xs) (map Fin ys) (i - 1) = Fin wM"
    using weight_Fin [OF assms(1,2) i2(3,4)] by blast
  have d1: "\<exists>a. diff (map Fin xs) (map Fin ys) (i - 1) = Fin a"
    using diff_Fin [OF assms(1,2), of "i - 1"] assms(4,5) by simp
  have d2: "\<exists>a. diff (map Fin xs) (map Fin ys) i = Fin a"
    using diff_Fin [OF assms(1,2), of i] assms(5) by simp
  from d1 d2 obtain a b where ab: "diff (map Fin xs) (map Fin ys) (i - 1) = Fin a"
      "diff (map Fin xs) (map Fin ys) i = Fin b" by blast
  have span: "xs ! (i + 1) - xs ! (i - 1) \<noteq> 0"
    using sorted_distinct_nth(2) [OF assms(1), of "i - 1" "i + 1"] assms(4,5) by simp
  have i: "i + 1 < length xs" "i < length xs" "i - 1 < length xs" using assms(5) by simp_all
  show ?thesis
  proof (cases "\<bar>Fin wP\<bar> < EPSILON \<and> \<bar>Fin wM\<bar> < EPSILON")
    case True
    then show ?thesis
      unfolding firstDerivatives_interior [OF l(1,2) assms(4) l(3)] wP(2) wM(2) ab Let_def
      using span i by simp
  next
    case False
    then have "wP + wM \<noteq> 0"
      using wP(1) wM(1) by (auto simp: EPSILON_def)
    with False show ?thesis
      unfolding firstDerivatives_interior [OF l(1,2) assms(4) l(3)] wP(2) wM(2) ab Let_def
      by auto
  qed
qed

lemma firstDerivatives_boundary_finite:
  fixes xs ys :: "real list"
  assumes "sorted_wrt (<) xs" and "length ys = length xs" and "5 \<le> length xs"
  shows "is_finite (firstDerivatives (map Fin xs) (map Fin ys) ! 0)"
    and "is_finite (firstDerivatives (map Fin xs) (map Fin ys) ! 1)"
    and "is_finite (firstDerivatives (map Fin xs) (map Fin ys) ! (length xs - 2))"
    and "is_finite (firstDerivatives (map Fin xs) (map Fin ys) ! (length xs - 1))"
proof -
  have l: "5 \<le> length (map Fin xs)" using assms(3) by simp
  note b = firstDerivatives_boundary [OF l, of "map Fin ys", simplified length_map]
  have fin: "is_finite (differentiateThreePoint (map Fin xs) (map Fin ys) k i0 i1 i2)"
    if "k < length xs" "i0 < i1" "i1 < i2" "i2 < length xs" for k i0 i1 i2
  proof -
    have "xs ! i1 \<noteq> xs ! i0" "xs ! i2 \<noteq> xs ! i0" "xs ! i2 \<noteq> xs ! i1"
      using sorted_distinct_nth(3) [OF assms(1), of i0 i1]
        sorted_distinct_nth(3) [OF assms(1), of i0 i2]
        sorted_distinct_nth(3) [OF assms(1), of i1 i2] that by simp_all
    then show ?thesis
      using that assms(2)
      by (subst differentiateThreePoint_Fin) (simp_all add: Let_def)
  qed
  show "is_finite (firstDerivatives (map Fin xs) (map Fin ys) ! 0)"
    unfolding b(1) using assms(3) by (intro fin) auto
  show "is_finite (firstDerivatives (map Fin xs) (map Fin ys) ! 1)"
    unfolding b(2) using assms(3) by (intro fin) simp_all
  show "is_finite (firstDerivatives (map Fin xs) (map Fin ys) ! (length xs - 2))"
    unfolding b(3) using assms(3) by (intro fin) simp_all
  show "is_finite (firstDerivatives (map Fin xs) (map Fin ys) ! (length xs - 1))"
    unfolding b(4) using assms(3) by (intro fin) simp_all
qed

lemma firstDerivatives_finite:
  fixes xs ys :: "real list"
  assumes "sorted_wrt (<) xs" and "length ys = length xs" and "5 \<le> length xs"
    and "i < length xs"
  shows "is_finite (firstDerivatives (map Fin xs) (map Fin ys) ! i)"
proof -
  consider "i = 0" | "i = 1" | "2 \<le> i" "i < length xs - 2" | "i = length xs - 2"
    | "i = length xs - 1"
    using assms(4) by linarith
  then show ?thesis
  proof cases
    case 3
    then show ?thesis by (rule firstDerivatives_interior_finite [OF assms(1-3)])
  qed (simp_all only: firstDerivatives_boundary_finite [OF assms(1-3)])
qed

section \<open>The segment polynomials\<close>

text \<open>The cubic with the Hermite coefficients, over the reals.\<close>

lemma hermite_cubic:
  fixes a b y0 y1 d0 d1 :: real
  assumes "b - a \<noteq> 0"
  defines "c2 \<equiv> (3 * (y1 - y0) / (b - a) - 2 * d0 - d1) / (b - a)"
    and "c3 \<equiv> (2 * (y0 - y1) / (b - a) + d0 + d1) / ((b - a) * (b - a))"
  defines "p \<equiv> \<lambda>x. ((c3 * (x - a) + c2) * (x - a) + d0) * (x - a) + y0"
  shows "p a = y0" and "p b = y1"
    and "(p has_real_derivative d0) (at a)" and "(p has_real_derivative d1) (at b)"
proof -
  let ?w = "b - a"
  have c2: "c2 * ?w = 3 * (y1 - y0) / ?w - 2 * d0 - d1"
    using assms(1) by (simp add: c2_def)
  have c3: "c3 * ?w * ?w = 2 * (y0 - y1) / ?w + d0 + d1"
    using assms(1) by (simp add: c3_def)
  have q: "(y1 - y0) / ?w * ?w = y1 - y0" using assms(1) by simp
  show "p a = y0" by (simp add: p_def)
  have "p b = (c3 * ?w * ?w) * ?w + (c2 * ?w) * ?w + d0 * ?w + y0"
    by (simp add: p_def algebra_simps)
  also have "\<dots> = (2 * (y0 - y1) / ?w + d0 + d1) * ?w + (3 * (y1 - y0) / ?w - 2 * d0 - d1) * ?w
      + d0 * ?w + y0"
    by (simp only: c2 c3)
  also have "\<dots> = 3 * ((y1 - y0) / ?w * ?w) - 2 * ((y1 - y0) / ?w * ?w) + y0"
    by (simp add: algebra_simps diff_divide_distrib)
  also have "\<dots> = y1" by (simp only: q) simp
  finally show "p b = y1" .
  have deriv: "(p has_real_derivative (3 * c3 * (x - a) * (x - a) + 2 * c2 * (x - a) + d0)) (at x)"
    for x
    unfolding p_def by (auto intro!: derivative_eq_intros simp: algebra_simps)
  from deriv [of a] show "(p has_real_derivative d0) (at a)" by simp
  have "3 * c3 * ?w * ?w + 2 * c2 * ?w + d0 =
      3 * (c3 * ?w * ?w) + 2 * (c2 * ?w) + d0" by simp
  also have "\<dots> = 3 * (2 * (y0 - y1) / ?w + d0 + d1) + 2 * (3 * (y1 - y0) / ?w - 2 * d0 - d1) + d0"
    by (simp only: c2 c3)
  also have "\<dots> = d1" by (simp add: algebra_simps diff_divide_distrib)
  finally have "3 * c3 * ?w * ?w + 2 * c2 * ?w + d0 = d1" .
  with deriv [of b] show "(p has_real_derivative d1) (at b)" by simp
qed

lemma hermite_row_Fin:
  fixes xs ys ds :: "real list"
  assumes "sorted_wrt (<) xs" and "length ys = length xs" and "length ds = length xs"
    and "Suc i < length xs"
  shows "hermite_row (map Fin xs) (map Fin ys) (map Fin ds) i =
     [Fin (ys ! i), Fin (ds ! i),
      Fin ((3 * (ys ! (i + 1) - ys ! i) / (xs ! (i + 1) - xs ! i) - 2 * ds ! i - ds ! (i + 1))
            / (xs ! (i + 1) - xs ! i)),
      Fin ((2 * (ys ! i - ys ! (i + 1)) / (xs ! (i + 1) - xs ! i) + ds ! i + ds ! (i + 1))
            / ((xs ! (i + 1) - xs ! i) * (xs ! (i + 1) - xs ! i)))]"
proof -
  have "xs ! (i + 1) - xs ! i \<noteq> 0"
    using sorted_distinct_nth(2) [OF assms(1), of i "i + 1"] assms(4) by simp
  then show ?thesis
    using assms(2-4) by (simp add: hermite_row_def Let_def)
qed

lemma firstDerivatives_map_Fin:
  fixes xs ys :: "real list"
  assumes "sorted_wrt (<) xs" and "length ys = length xs" and "5 \<le> length xs"
  shows "firstDerivatives (map Fin xs) (map Fin ys) =
           map Fin (map real_of (firstDerivatives (map Fin xs) (map Fin ys)))"
proof (rule nth_equalityI)
  show "length (firstDerivatives (map Fin xs) (map Fin ys)) =
        length (map Fin (map real_of (firstDerivatives (map Fin xs) (map Fin ys))))"
    by simp
next
  fix i assume "i < length (firstDerivatives (map Fin xs) (map Fin ys))"
  then have i: "i < length xs" using assms(3) by simp
  from firstDerivatives_finite [OF assms i]
  obtain a where "firstDerivatives (map Fin xs) (map Fin ys) ! i = Fin a"
    by (auto simp: is_finite_iff)
  then show "firstDerivatives (map Fin xs) (map Fin ys) ! i =
      map Fin (map real_of (firstDerivatives (map Fin xs) (map Fin ys))) ! i"
    using i assms(3) by simp
qed

text \<open>
  On strictly increasing real knots, segment \<open>i\<close> of the fitted table is the Hermite cubic
  of the values and the computed derivatives at its two ends.
\<close>

lemma segment_polynomial_hermite:
  fixes xs ys :: "real list"
  assumes "sorted_wrt (<) xs" and "length ys = length xs" and "5 \<le> length xs"
    and "Suc i < length xs"
    and "interpolate (Some (map Fin xs)) (Some (map Fin ys)) = Inr coeffs"
  defines "d \<equiv> firstDerivatives (map Fin xs) (map Fin ys)"
  shows "is_finite (d ! i)" and "is_finite (d ! Suc i)"
    and "\<exists>c0 c1 c2 c3. coeffs ! i = Some [Fin c0, Fin c1, Fin c2, Fin c3]"
    and "\<forall>x. is_finite (segment_polynomial (map Fin xs) coeffs i x)"
    and "segment_polynomial (map Fin xs) coeffs i (xs ! i) = Fin (ys ! i)"
    and "segment_polynomial (map Fin xs) coeffs i (xs ! Suc i) = Fin (ys ! Suc i)"
    and "((\<lambda>x. real_of (segment_polynomial (map Fin xs) coeffs i x))
            has_real_derivative real_of (d ! i)) (at (xs ! i))"
    and "((\<lambda>x. real_of (segment_polynomial (map Fin xs) coeffs i x))
            has_real_derivative real_of (d ! Suc i)) (at (xs ! Suc i))"
proof -
  define ds where "ds = map real_of d"
  have d: "d = map Fin ds"
    unfolding ds_def d_def by (rule firstDerivatives_map_Fin [OF assms(1-3)])
  have lds: "length ds = length xs" using assms(3) by (simp add: ds_def d_def)
  have i: "i < length xs" "i < length xs - 1" using assms(4) by simp_all
  define a where "a = xs ! i"
  define b where "b = xs ! (i + 1)"
  define y0 where "y0 = ys ! i"
  define y1 where "y1 = ys ! (i + 1)"
  define d0 where "d0 = ds ! i"
  define d1 where "d1 = ds ! (i + 1)"
  define c2 where "c2 = (3 * (y1 - y0) / (b - a) - 2 * d0 - d1) / (b - a)"
  define c3 where "c3 = (2 * (y0 - y1) / (b - a) + d0 + d1) / ((b - a) * (b - a))"
  define p where "p = (\<lambda>x. ((c3 * (x - a) + c2) * (x - a) + d0) * (x - a) + y0)"
  have w: "b - a \<noteq> 0"
    unfolding a_def b_def
    using sorted_distinct_nth(2) [OF assms(1), of i "i + 1"] assms(4) by simp
  have "coeffs = map (\<lambda>i. Some (hermite_row (map Fin xs) (map Fin ys) d i)) [0 ..< length xs - 1]"
    using interpolate_eq [of "map Fin ys" "map Fin xs"] assms(2,3,5) by (simp add: d_def)
  then have "coeffs ! i = Some (hermite_row (map Fin xs) (map Fin ys) (map Fin ds) i)"
    using i(2) by (simp add: d)
  then have row: "coeffs ! i = Some [Fin y0, Fin d0, Fin c2, Fin c3]"
    unfolding hermite_row_Fin [OF assms(1,2) lds assms(4)]
    by (simp only: a_def b_def y0_def y1_def d0_def d1_def c2_def c3_def)
  have poly: "segment_polynomial (map Fin xs) coeffs i x = Fin (p x)" for x
    using i(1) by (simp add: segment_polynomial_def row evaluatePolynomial_cubic p_def a_def)
  have di: "d ! i = Fin d0" "d ! Suc i = Fin d1"
    using assms(4) lds by (simp_all add: d d0_def d1_def)
  have h: "p a = y0" "p b = y1"
      "(p has_real_derivative d0) (at a)" "(p has_real_derivative d1) (at b)"
    unfolding p_def c2_def c3_def by (rule hermite_cubic [OF w])+
  show "is_finite (d ! i)" "is_finite (d ! Suc i)" by (simp_all add: di)
  show "\<exists>c0 c1 c2 c3. coeffs ! i = Some [Fin c0, Fin c1, Fin c2, Fin c3]"
    using row by blast
  show "\<forall>x. is_finite (segment_polynomial (map Fin xs) coeffs i x)"
    by (simp add: poly)
  show "segment_polynomial (map Fin xs) coeffs i (xs ! i) = Fin (ys ! i)"
    using h(1) by (simp add: poly a_def y0_def)
  show "segment_polynomial (map Fin xs) coeffs i (xs ! Suc i) = Fin (ys ! Suc i)"
    using h(2) by (simp add: poly b_def y1_def)
  have fn: "(\<lambda>x. real_of (segment_polynomial (map Fin xs) coeffs i x)) = p"
    by (simp add: poly)
  show "((\<lambda>x. real_of (segment_polynomial (map Fin xs) coeffs i x))
            has_real_derivative real_of (d ! i)) (at (xs ! i))"
    unfolding fn using h(3) by (simp add: di a_def)
  show "((\<lambda>x. real_of (segment_polynomial (map Fin xs) coeffs i x))
            has_real_derivative real_of (d ! Suc i)) (at (xs ! Suc i))"
    unfolding fn using h(4) by (simp add: di b_def)
qed

lemma readme_table:
  "interpolate (Some (map Fin [10, 20, 30, 40, 50, 60, 70, 80 :: real])) (Some (map Fin [40, 10, 17, 39, 99, 120, 30, 10 :: real])) = Inr (segmentCoeffs (snd readme_fit))"
proof -
  have "interpolate (Some readme_xvals) (Some readme_yvals) = Inr (segmentCoeffs (snd readme_fit))"
    using createInterpolator_InrD(5) [OF readme_fit_eq]
    by (subst interpolate_eq) simp_all
  then show ?thesis by (simp add: readme_xvals_def readme_yvals_def)
qed

text \<open>
  Over the reals, without rounding: for a fit on strictly increasing real knots, every
  segment polynomial \<open>p\<^sub>i\<close> of the table is finite everywhere, takes the values \<open>y[i]\<close> at
  \<open>x[i]\<close> and \<open>y[i+1]\<close> at \<open>x[i+1]\<close>, and has there the derivatives \<open>y'[i]\<close> and
  \<open>y'[i+1]\<close> of the computed array of first derivatives. So at an interior knot
  \<open>x[i+1]\<close> the next segment \<open>p\<^sub>i\<^sub>+\<^sub>1\<close> has the value and the derivative of \<open>p\<^sub>i\<close>.
\<close>

lemma segments_hermite_exact:
  fixes xs ys :: "real list"
  assumes "sorted_wrt (<) xs" and "length ys = length xs" and "5 \<le> length xs"
    and "Suc i < length xs"
    and "interpolate (Some (map Fin xs)) (Some (map Fin ys)) = Inr coeffs"
  shows "(\<forall>x. is_finite (segment_polynomial (map Fin xs) coeffs i x))
   \<and> is_finite (firstDerivatives (map Fin xs) (map Fin ys) ! i)
   \<and> is_finite (firstDerivatives (map Fin xs) (map Fin ys) ! Suc i)
   \<and> segment_polynomial (map Fin xs) coeffs i (xs ! i) = Fin (ys ! i)
   \<and> segment_polynomial (map Fin xs) coeffs i (xs ! Suc i) = Fin (ys ! Suc i)
   \<and> ((\<lambda>x. real_of (segment_polynomial (map Fin xs) coeffs i x)) has_real_derivative
          real_of (firstDerivatives (map Fin xs) (map Fin ys) ! i)) (at (xs ! i))
   \<and> ((\<lambda>x. real_of (segment_polynomial (map Fin xs) coeffs i x)) has_real_derivative
          real_of (firstDerivatives (map Fin xs) (map Fin ys) ! Suc i)) (at (xs ! Suc i))
   \<and> (Suc (Suc i) < length xs \<longrightarrow>
        segment_polynomial (map Fin xs) coeffs (Suc i) (xs ! Suc i) =
            segment_polynomial (map Fin xs) coeffs i (xs ! Suc i)
        \<and> ((\<lambda>x. real_of (segment_polynomial (map Fin xs) coeffs (Suc i) x)) has_real_derivative
              real_of (firstDerivatives (map Fin xs) (map Fin ys) ! Suc i)) (at (xs ! Suc i)))"
proof -
  note s = segment_polynomial_hermite [OF assms]
  have "segment_polynomial (map Fin xs) coeffs (Suc i) (xs ! Suc i) =
            segment_polynomial (map Fin xs) coeffs i (xs ! Suc i)
        \<and> ((\<lambda>x. real_of (segment_polynomial (map Fin xs) coeffs (Suc i) x)) has_real_derivative
              real_of (firstDerivatives (map Fin xs) (map Fin ys) ! Suc i)) (at (xs ! Suc i))"
    if "Suc (Suc i) < length xs"
    using segment_polynomial_hermite(5,7) [OF assms(1-3) that assms(5)] s(6) by simp
  with s show ?thesis by blast
qed

section \<open>Evaluation at the knots\<close>

lemma binarySearch_knot:
  fixes xs :: "real list"
  assumes "sorted_wrt (<) xs" and "length xs \<le> 2 ^ 31" and "i < length xs"
  shows "binarySearch (map Fin xs) (Fin (xs ! i)) = Some (Inr (int i))"
proof -
  have srt: "sorted_wrt (<) (map Fin xs)" "NaN \<notin> set (map Fin xs)"
    using sorted_map_Fin [OF assms(1)] by simp_all
  have len: "length (map Fin xs) \<le> 2 ^ 31" using assms(2) by simp
  from binarySearch_sorted [OF srt _ len, of "Fin (xs ! i)"]
  consider j where "j < length xs" "Fin (xs ! j) = Fin (xs ! i)"
      "binarySearch (map Fin xs) (Fin (xs ! i)) = Some (Inr (int j))"
    | p where "\<forall>k < p. map Fin xs ! k < Fin (xs ! i)"
        "\<forall>k. p \<le> k \<and> k < length xs \<longrightarrow> Fin (xs ! i) < map Fin xs ! k"
    by auto
  then show ?thesis
  proof cases
    case 1
    have "j = i"
    proof (rule ccontr)
      assume "j \<noteq> i"
      then have "xs ! j \<noteq> xs ! i"
        using sorted_distinct_nth(3) [OF assms(1), of i j] sorted_distinct_nth(3) [OF assms(1), of j i]
          1(1) assms(3) by (cases "i < j") auto
      with 1(2) show False by simp
    qed
    with 1(3) show ?thesis by simp
  next
    case 2
    show ?thesis
    proof (cases "i < p")
      case True
      with 2(1) assms(3) show ?thesis by auto
    next
      case False
      then have "p \<le> i \<and> i < length xs" using assms(3) by simp
      with 2(2) have "Fin (xs ! i) < map Fin xs ! i" by blast
      with assms(3) show ?thesis by simp
    qed
  qed
qed

text \<open>The value of the returned function at a finite query, by the segment it selects.\<close>

lemma call_segment_polynomial:
  fixes xs :: "real list"
  assumes "createInterpolator h (Some rx) (Some ry) = Inr (h', f)"
    and "cells h rx = map Fin xs"
    and "binarySearch (map Fin xs) (Fin x) = Some (Inr r)"
    and "k = nat (max 0 (min (if r < 0 then - r - 2 else r) (int (length xs) - 2)))"
  shows "k < length xs - 1"
    and "call h' f (Fin x) = Some (Inr (segment_polynomial (map Fin xs) (segmentCoeffs f) k x))"
proof -
  note fit = createInterpolator_InrD [OF assms(1)]
  have n: "5 \<le> length xs" using fit(2) assms(2) by simp
  show k: "k < length xs - 1" using n assms(4) by auto
  have len: "length (segmentCoeffs f) = length xs - 1" using fit(5) assms(2) by simp
  have l: "int (length (segmentCoeffs f)) - 1 = int (length xs) - 2" using len n by simp
  obtain c where c: "segmentCoeffs f ! k = Some c"
    using fitted_row(2) [OF assms(1), of k] k assms(2) by simp
  have "evaluatePolynomialSegment (map Fin xs) (segmentCoeffs f) (Fin x) =
      Some (Inr (evaluatePolynomial c (Fin x - js_nth (map Fin xs) k)))"
    using assms(3) k c
    by (simp add: evaluatePolynomialSegment_def Let_def l len assms(4) [symmetric])
  then show "call h' f (Fin x) =
      Some (Inr (segment_polynomial (map Fin xs) (segmentCoeffs f) k x))"
    using k by (simp add: call_fitted [OF assms(1)] assms(2) segment_polynomial_def c)
qed

text \<open>
  Over the reals, without rounding: for a fit on strictly increasing real knots \<open>xs\<close>
  with the values \<open>ys\<close>, the returned function gives \<open>ys[i]\<close> at every knot \<open>xs[i]\<close>; at
  every finite query it returns a finite value, and the computed derivatives and
  coefficients are all finite.
\<close>

lemma knot_values_exact:
  fixes xs ys :: "real list"
  assumes "createInterpolator h (Some rx) (Some ry) = Inr (h', f)"
    and "cells h rx = map Fin xs" and "cells h ry = map Fin ys"
    and "sorted_wrt (<) xs" and "length xs \<le> 2 ^ 31" and "i < length xs"
  shows "call h' f (Fin (xs ! i)) = Some (Inr (Fin (ys ! i)))
       \<and> (\<exists>v. call h' f (Fin x) = Some (Inr (Fin v)))
       \<and> (\<forall>k < length xs - 1. \<exists>c0 c1 c2 c3.
              segmentCoeffs f ! k = Some [Fin c0, Fin c1, Fin c2, Fin c3])
       \<and> (\<forall>k < length xs. is_finite (firstDerivatives (map Fin xs) (map Fin ys) ! k))"
proof -
  let ?n = "length xs"
  note fit = createInterpolator_InrD [OF assms(1)]
  have n: "5 \<le> ?n" and ly: "length ys = ?n" using fit(1,2) assms(2,3) by simp_all
  have table: "interpolate (Some (map Fin xs)) (Some (map Fin ys)) = Inr (segmentCoeffs f)"
    using fit(5) n ly by (subst interpolate_eq) (simp_all add: assms(2,3))
  note seg = segment_polynomial_hermite [OF assms(4) ly n _ table]
  have knot: "call h' f (Fin (xs ! i)) = Some (Inr (Fin (ys ! i)))"
  proof -
    let ?k = "min i (?n - 2)"
    have kr: "?k = nat (max 0 (min (if int i < 0 then - int i - 2 else int i) (int ?n - 2)))"
      using n by simp
    note c = call_segment_polynomial [OF assms(1,2) binarySearch_knot [OF assms(4,5,6)] kr]
    show ?thesis
    proof (cases "i < ?n - 1")
      case True
      then have "?k = i" "Suc i < ?n" by simp_all
      with c(2) seg(5) [of i] show ?thesis by simp
    next
      case False
      with assms(6) have "?k = ?n - 2" "Suc (?n - 2) = i" "Suc (?n - 2) < ?n"
        using n by simp_all
      with c(2) seg(6) [of "?n - 2"] show ?thesis by simp
    qed
  qed
  have anywhere: "\<exists>v. call h' f (Fin x) = Some (Inr (Fin v))"
  proof -
    have "NaN \<notin> set (map Fin xs)" "length (map Fin xs) \<le> 2 ^ 31"
      using assms(5) by auto
    from binarySearch_returns [OF this(1) _ this(2), of "Fin x"]
    obtain r where r: "binarySearch (map Fin xs) (Fin x) = Some (Inr r)" by auto
    define k where "k = nat (max 0 (min (if r < 0 then - r - 2 else r) (int ?n - 2)))"
    note c = call_segment_polynomial [OF assms(1,2) r k_def]
    have "Suc k < ?n" using c(1) by simp
    from seg(4) [OF this] c(2) show ?thesis
      by (auto simp: is_finite_iff)
  qed
  have rows: "\<forall>k < ?n - 1. \<exists>c0 c1 c2 c3.
              segmentCoeffs f ! k = Some [Fin c0, Fin c1, Fin c2, Fin c3]"
  proof (intro allI impI)
    fix k assume "k < ?n - 1"
    then have "Suc k < ?n" by simp
    from seg(3) [OF this]
    show "\<exists>c0 c1 c2 c3. segmentCoeffs f ! k = Some [Fin c0, Fin c1, Fin c2, Fin c3]" .
  qed
  have derivs: "\<forall>k < ?n. is_finite (firstDerivatives (map Fin xs) (map Fin ys) ! k)"
    using firstDerivatives_finite [OF assms(4) ly n] by blast
  from knot anywhere rows derivs show ?thesis by blast
qed

section \<open>Rounding to binary64\<close>

lemma rne_of_int [simp]: "rne (of_int n) = n"
  by (simp add: rne_def)

lemma binary64_special [simp]:
  "binary64 NaN = NaN" "binary64 PInf = PInf" "binary64 NInf = NInf" "binary64 (Fin 0) = Fin 0"
  by (simp_all add: binary64_def)

lemma floor_log2:
  fixes a :: real
  assumes "2 powr of_int e \<le> a" and "a < 2 powr of_int (e + 1)"
  shows "\<lfloor>log 2 a\<rfloor> = e"
proof -
  have apos: "0 < a" using assms(1) by (smt (verit) powr_gt_zero)
  have "of_int e \<le> log 2 a" using assms(1) apos by (simp add: le_log_iff)
  moreover have "log 2 a < of_int (e + 1)" using assms(2) apos by (simp add: log_less_iff)
  ultimately show ?thesis by (simp add: floor_eq_iff)
qed

lemma binary64_core:
  fixes r :: real and k :: int
  assumes "r \<noteq> 0" and "\<bar>r\<bar> < 2 ^ 53" and "2 ^ 52 \<le> \<bar>r\<bar> \<or> k = - 1074" and "- 1074 \<le> k"
  shows "binary64 (Fin (r * 2 powr of_int k)) =
     (if (2::real) ^ 1024 \<le> \<bar>of_int (rne r) * 2 powr of_int k\<bar> then inf_of_sign r
      else Fin (of_int (rne r) * 2 powr of_int k))"
proof -
  define R where "R = r * 2 powr of_int k"
  have R0: "R \<noteq> 0" using assms(1) by (simp add: R_def)
  have a: "\<bar>R\<bar> = \<bar>r\<bar> * 2 powr of_int k" by (simp add: R_def abs_mult)
  have p52: "(2::real) powr of_int (52 + k) = 2 ^ 52 * 2 powr of_int k"
    by (simp add: powr_add)
  have p53: "(2::real) powr of_int (53 + k) = 2 ^ 53 * 2 powr of_int k"
    by (simp add: powr_add)
  have e: "max \<lfloor>log 2 \<bar>R\<bar>\<rfloor> (- 1022) - 52 = k"
  proof (cases "2 ^ 52 \<le> \<bar>r\<bar>")
    case True
    have "2 powr of_int (52 + k) \<le> \<bar>R\<bar>"
      unfolding a p52 using True by (simp add: mult_right_mono)
    moreover have "\<bar>R\<bar> < 2 powr of_int (52 + k + 1)"
      using assms(2) p53 a by (simp add: add.commute add.left_commute)
    ultimately have "\<lfloor>log 2 \<bar>R\<bar>\<rfloor> = 52 + k" by (rule floor_log2)
    then show ?thesis using assms(4) by simp
  next
    case False
    with assms(3) have k: "k = - 1074" and lt: "\<bar>r\<bar> < 2 ^ 52" by simp_all
    have "\<bar>R\<bar> < 2 powr of_int (52 + k)"
      unfolding a p52 using lt by simp
    then have "log 2 \<bar>R\<bar> < of_int (52 + k)"
      using R0 by (simp add: log_less_iff del: of_int_add)
    then have "\<lfloor>log 2 \<bar>R\<bar>\<rfloor> < 52 + k" by (simp add: floor_less_iff)
    then show ?thesis using k by simp
  qed
  have q: "R / 2 powr of_int k = r" by (simp add: R_def)
  have sgn: "inf_of_sign R = inf_of_sign r"
    by (simp add: inf_of_sign_def R_def zero_less_mult_iff)
  have "binary64 (Fin R) =
     (if (2::real) ^ 1024 \<le> \<bar>of_int (rne r) * 2 powr of_int k\<bar> then inf_of_sign R
      else Fin (of_int (rne r) * 2 powr of_int k))"
    by (simp only: binary64_def number.case R0 if_False Let_def e q)
  then have "binary64 (Fin R) =
     (if (2::real) ^ 1024 \<le> \<bar>of_int (rne r) * 2 powr of_int k\<bar> then inf_of_sign r
      else Fin (of_int (rne r) * 2 powr of_int k))"
    by (simp only: sgn)
  then show ?thesis by (simp only: R_def)
qed


lemma binary64_scaled: "binary64 (Fin r) = scaled (r * 2 ^ 52) (- 52)"
  by (simp add: scaled_def powr_neg_numeral)

lemma scaled_zero: "scaled 0 k = Fin 0"
  by (simp add: scaled_def)

lemma scaled_up:
  "2 ^ 53 \<le> \<bar>r\<bar> \<Longrightarrow> \<bar>r\<bar> < 2 ^ 60 \<Longrightarrow> scaled r k = scaled (r / 2) (k + 1)"
  "2 ^ 60 \<le> \<bar>r\<bar> \<Longrightarrow> \<bar>r\<bar> < 2 ^ 116 \<Longrightarrow> scaled r k = scaled (r / 2 ^ 8) (k + 8)"
  "2 ^ 116 \<le> \<bar>r\<bar> \<Longrightarrow> scaled r k = scaled (r / 2 ^ 64) (k + 64)"
  by (simp_all add: scaled_def powr_add)

lemma scaled_down:
  "r \<noteq> 0 \<Longrightarrow> \<bar>r\<bar> < 2 ^ 52 \<Longrightarrow> 2 ^ 45 \<le> \<bar>r\<bar> \<or> k < - 1066 \<Longrightarrow> - 1074 < k \<Longrightarrow>
     scaled r k = scaled (r * 2) (k - 1)"
  "r \<noteq> 0 \<Longrightarrow> \<bar>r\<bar> < 2 ^ 45 \<Longrightarrow> 1 / 2 ^ 11 \<le> \<bar>r\<bar> \<or> k < - 1010 \<Longrightarrow> - 1066 \<le> k \<Longrightarrow>
     scaled r k = scaled (r * 2 ^ 8) (k - 8)"
  "r \<noteq> 0 \<Longrightarrow> \<bar>r\<bar> < 1 / 2 ^ 11 \<Longrightarrow> - 1010 \<le> k \<Longrightarrow>
     scaled r k = scaled (r * 2 ^ 64) (k - 64)"
  by (simp_all add: scaled_def powr_diff)

lemma scaled_done:
  assumes "r \<noteq> 0" and "\<bar>r\<bar> < 2 ^ 53" and "2 ^ 52 \<le> \<bar>r\<bar> \<or> k = - 1074"
    and "- 1074 \<le> k" and "k \<le> 970"
  shows "scaled r k = Fin (of_int (rne r) * 2 powr of_int k)"
proof -
  have "\<bar>rne r\<bar> \<le> 2 ^ 53"
    using assms(2) by (auto simp: rne_def Let_def abs_le_iff le_floor_iff floor_le_iff) linarith+
  then have "\<bar>of_int (rne r) :: real\<bar> \<le> 2 ^ 53"
    by (metis of_int_abs of_int_le_numeral_power_cancel_iff)
  moreover have "(2::real) powr of_int k \<le> 2 powr of_int 970"
    using assms(5) by (intro powr_mono) auto
  ultimately have "\<bar>of_int (rne r) :: real\<bar> * 2 powr of_int k \<le> 2 ^ 53 * 2 powr of_int 970"
    by (intro mult_mono) simp_all
  moreover have "(2::real) ^ 53 * 2 powr of_int 970 < 2 ^ 1024" by simp
  ultimately have "\<not> (2::real) ^ 1024 \<le> \<bar>of_int (rne r) * 2 powr of_int k\<bar>"
    unfolding abs_mult by simp
  then show ?thesis
    unfolding scaled_def binary64_core [OF assms(1-4)] by (simp only: if_False)
qed



lemma scaled_top:
  assumes "2 ^ 52 \<le> \<bar>r\<bar>" and "\<bar>r\<bar> < 2 ^ 53" and "971 \<le> k"
  shows "scaled r k =
     (if (2::real) ^ 1024 \<le> \<bar>of_int (rne r) * 2 powr of_int k\<bar> then inf_of_sign r
      else Fin (of_int (rne r) * 2 powr of_int k))"
proof -
  have "r \<noteq> 0" "2 ^ 52 \<le> \<bar>r\<bar> \<or> k = - 1074" "- 1074 \<le> k"
    using assms by auto
  from binary64_core [OF this(1) assms(2) this(2,3)] show ?thesis
    by (simp only: scaled_def)
qed


lemma rne_bound:
  assumes "\<bar>x\<bar> < 2 ^ 53"
  shows "\<bar>rne x\<bar> \<le> 2 ^ 53"
  using assms by (auto simp: rne_def Let_def abs_le_iff le_floor_iff floor_le_iff) linarith+

text \<open>Binary64 holds every multiple of a power of two that has at most 53 bits.\<close>

lemma binary64_dyadic:
  fixes m k :: int
  assumes "\<bar>m\<bar> < 2 ^ 53" and "- 1074 \<le> k"
    and "\<bar>of_int m * 2 powr of_int k\<bar> < (2::real) ^ 1024"
  shows "binary64 (Fin (of_int m * 2 powr of_int k)) = Fin (of_int m * 2 powr of_int k)"
  using assms
proof (induction "nat (k + 1074)" arbitrary: m k)
  case 0
  then have k: "k = - 1074" by simp
  show ?case
  proof (cases "m = 0")
    case True
    then show ?thesis by simp
  next
    case False
    have "\<bar>of_int m :: real\<bar> < 2 ^ 53"
      using "0.prems"(1) by (metis of_int_abs of_int_less_numeral_power_cancel_iff)
    from binary64_core [of "of_int m" k, OF _ this] False k "0.prems"(3)
    show ?thesis by simp
  qed
next
  case (Suc n)
  have bound: "\<bar>of_int m :: real\<bar> < 2 ^ 53"
    using Suc.prems(1) by (metis of_int_abs of_int_less_numeral_power_cancel_iff)
  show ?case
  proof (cases "m = 0 \<or> 2 ^ 52 \<le> \<bar>m\<bar>")
    case True
    show ?thesis
    proof (cases "m = 0")
      case True
      then show ?thesis by simp
    next
      case False
      with True have "2 ^ 52 \<le> \<bar>m\<bar>" by simp
      then have "(2::real) ^ 52 \<le> \<bar>of_int m\<bar>"
        by (metis of_int_abs numeral_power_le_of_int_cancel_iff)
      with binary64_core [of "of_int m" k, OF _ bound] False Suc.prems(2,3)
      show ?thesis by simp
    qed
  next
    case False
    then have small: "\<bar>2 * m\<bar> < 2 ^ 53" by (simp add: abs_mult)
    have n: "n = nat (k - 1 + 1074)" "- 1074 \<le> k - 1" using Suc.hyps(2) by simp_all
    have same: "(of_int (2 * m) :: real) * 2 powr of_int (k - 1) = of_int m * 2 powr of_int k"
      by (simp add: powr_diff)
    from Suc.hyps(1) [OF n(1) small n(2)] Suc.prems(3) show ?thesis
      unfolding same by simp
  qed
qed

text \<open>Rounding twice is rounding once.\<close>

lemma binary64_idem: "binary64 (binary64 x) = binary64 x"
proof (cases x)
  case (Fin r)
  show ?thesis
  proof (cases "r = 0")
    case True
    with Fin show ?thesis by simp
  next
    case False
    define e where "e = max \<lfloor>log 2 \<bar>r\<bar>\<rfloor> (- 1022)"
    define m where "m = rne (r / 2 powr of_int (e - 52))"
    define v :: real where "v = of_int m * 2 powr of_int (e - 52)"
    have b: "binary64 (Fin r) = (if 2 ^ 1024 \<le> \<bar>v\<bar> then inf_of_sign r else Fin v)"
      using False by (simp add: binary64_def Let_def e_def m_def v_def)
    show ?thesis
    proof (cases "2 ^ 1024 \<le> \<bar>v\<bar>")
      case True
      with b False Fin show ?thesis by (simp add: inf_of_sign_def)
    next
      case nov: False
      have "log 2 \<bar>r\<bar> < of_int (\<lfloor>log 2 \<bar>r\<bar>\<rfloor> + 1)" by linarith
      also have "\<dots> \<le> of_int (e + 1)" by (simp add: e_def)
      finally have "\<bar>r\<bar> < 2 powr of_int (e + 1)"
        using False by (simp add: log_less_iff del: of_int_add)
      also have "\<dots> = 2 ^ 53 * 2 powr of_int (e - 52)"
      proof -
        have "(of_int (e + 1) :: real) = 53 + of_int (e - 52)" by simp
        then have "(2::real) powr of_int (e + 1) = 2 powr (53 + of_int (e - 52))"
          by (simp only:)
        also have "\<dots> = 2 powr 53 * 2 powr of_int (e - 52)" by (rule powr_add)
        finally show ?thesis by simp
      qed
      finally have "\<bar>r / 2 powr of_int (e - 52)\<bar> < 2 ^ 53"
        by (simp add: abs_divide divide_less_eq)
      then have mb: "\<bar>m\<bar> \<le> 2 ^ 53" unfolding m_def by (rule rne_bound)
      have k: "- 1074 \<le> e - 52" by (simp add: e_def)
      have "binary64 (Fin v) = Fin v"
      proof (cases "\<bar>m\<bar> < 2 ^ 53")
        case True
        from binary64_dyadic [OF True k] nov show ?thesis by (simp add: v_def)
      next
        case False
        with mb have "\<bar>m\<bar> = 2 ^ 53" by simp
        then have "m = 2 ^ 53 \<or> m = - (2 ^ 53)" by (auto simp: abs_if split: if_splits)
        then have h: "m = 2 * (m div 2)" "\<bar>m div 2\<bar> < 2 ^ 53" by auto
        have "(of_int m :: real) = 2 * of_int (m div 2)"
          by (subst h(1)) simp
        then have "v = 2 * of_int (m div 2) * 2 powr of_int (e - 52)"
          by (simp only: v_def)
        also have "\<dots> = of_int (m div 2) * (2 powr of_int (e - 52) * 2 powr 1)" by simp
        also have "\<dots> = of_int (m div 2) * 2 powr (of_int (e - 52) + 1)"
          by (simp only: powr_add)
        also have "(of_int (e - 52) :: real) + 1 = of_int (e - 52 + 1)" by simp
        finally have v': "v = of_int (m div 2) * 2 powr of_int (e - 52 + 1)" .
        have "- 1074 \<le> e - 52 + 1" using k by simp
        from binary64_dyadic [OF h(2) this] nov show ?thesis
          unfolding v' [symmetric] by simp
      qed
      with b nov Fin show ?thesis by simp
    qed
  qed
qed (simp_all)

text \<open>
  The rules by which \<open>binary64\<close> is computed on a numeral: scale by powers of two until
  the 53-bit integer is reached, then round it.
\<close>

lemmas b64 = binary64_scaled scaled_zero scaled_up scaled_down scaled_done scaled_top rne_def
  Let_def powr_neg_numeral inf_of_sign_def

text \<open>
  Some values: the binary64 number next to \<open>1/10\<close>, ties that go to the even neighbour,
  the largest finite number and the overflow beyond it, and the smallest subnormal numbers.
\<close>

lemma binary64_examples:
  "binary64 (Fin (1 / 10)) = Fin (3602879701896397 / 36028797018963968)"
  "binary64 (Fin (2 ^ 53 + 1)) = Fin (2 ^ 53)"
  "binary64 (Fin (2 ^ 53 + 3)) = Fin (2 ^ 53 + 4)"
  "binary64 (Fin (2 ^ 1024 - 2 ^ 970 - 1)) = Fin (2 ^ 1024 - 2 ^ 971)"
  "binary64 (Fin (2 ^ 1024 - 2 ^ 970)) = PInf"
  "binary64 (Fin (- (2 ^ 1024))) = NInf"
  "binary64 (Fin (3 / 2 ^ 1075)) = Fin (1 / 2 ^ 1073)"
  "binary64 (Fin (1 / 2 ^ 1075)) = Fin 0"
  by (simp_all add: b64)

section \<open>The arrays of \<open>interpolate\<close>, rounded\<close>

lemma differences_r_eq:
  "differences_r rnd x y =
     map (\<lambda>j. rnd (rnd (js_nth y (j + 1) - js_nth y j) / rnd (js_nth x (j + 1) - js_nth x j)))
       [0 ..< length x - 1]"
  unfolding differences_r_def Let_def
  by (subst for_loop_fill) (simp_all cong: map_cong)

lemma length_differences_r [simp]: "length (differences_r rnd x y) = length x - 1"
  by (simp add: differences_r_eq)

lemma weights_r_eq:
  assumes "2 \<le> length x"
  shows "weights_r rnd x y =
     map (\<lambda>j. if 1 \<le> j
               then \<bar>rnd (js_nth (differences_r rnd x y) j - js_nth (differences_r rnd x y) (j - 1))\<bar>
               else NaN)
       [0 ..< length x - 1]"
  unfolding weights_r_def Let_def using assms
  by (subst for_loop_fill) (auto simp: new_Array_def)

lemma length_weights_r [simp]: "2 \<le> length x \<Longrightarrow> length (weights_r rnd x y) = length x - 1"
  by (simp add: weights_r_eq)

lemma firstDerivatives_body_r_eq:
  "firstDerivatives_body_r rnd xvals d w = (\<lambda>i fd. js_upd fd i (interior_r rnd xvals d w i))"
  by (intro ext) (simp add: firstDerivatives_body_r_def interior_r_def Let_def)

lemma firstDerivatives_r_eq:
  assumes "5 \<le> length x"
  shows "firstDerivatives_r rnd x y =
     (map (\<lambda>i. if 2 \<le> i \<and> i < length x - 2
               then interior_r rnd x (differences_r rnd x y) (weights_r rnd x y) i
               else NaN)
        [0 ..< length x])
     [0 := differentiateThreePoint_r rnd x y 0 0 1 2,
      1 := differentiateThreePoint_r rnd x y 1 0 1 2,
      length x - 2 :=
        differentiateThreePoint_r rnd x y (length x - 2) (length x - 3) (length x - 2) (length x - 1),
      length x - 1 :=
        differentiateThreePoint_r rnd x y (length x - 1) (length x - 3) (length x - 2) (length x - 1)]"
proof -
  have n: "0 < length x" "1 < length x" "length x - 2 < length x" "length x - 1 < length x"
      "2 \<le> length x - 2" "length x - 2 \<le> length x"
    using assms by auto
  let ?g = "for_loop 2 (length x - 2)
      (firstDerivatives_body_r rnd x (differences_r rnd x y) (weights_r rnd x y))
      (new_Array (length x))"
  have g: "?g = map (\<lambda>i. if 2 \<le> i \<and> i < length x - 2
               then interior_r rnd x (differences_r rnd x y) (weights_r rnd x y) i
               else NaN)
        [0 ..< length x]" (is "_ = ?m")
    unfolding firstDerivatives_body_r_eq
    by (subst for_loop_fill) (simp_all add: n new_Array_def cong: map_cong)
  define m where "m = ?m"
  have l: "length m = length x" by (simp add: m_def)
  have "js_upd (js_upd (js_upd (js_upd m 0 v0) 1 v1) (length x - 2) v2) (length x - 1) v3 =
        m[0 := v0, 1 := v1, length x - 2 := v2, length x - 1 := v3]" for v0 v1 v2 v3
    using n l by (simp del: One_nat_def)
  then show ?thesis
    unfolding firstDerivatives_r_def Let_def g m_def .
qed

lemma length_firstDerivatives_r [simp]:
  assumes "5 \<le> length x"
  shows "length (firstDerivatives_r rnd x y) = length x"
  by (simp add: firstDerivatives_r_eq [OF assms])

lemma hermite_body_r_eq:
  assumes "fst st = [] \<or> length (fst st) = 4"
    and "length y = length x" and "length d = length x" and "Suc i < length x"
  shows "hermite_body_r rnd x y d i st =
     (hermite_row_r rnd x y d i, store None (snd st) i (Some (hermite_row_r rnd x y d i)))"
  using assms(2-4)
  by (simp add: hermite_body_r_def hermite_row_r_def Let_def scratch_array_filled [OF assms(1)]
        del: One_nat_def)

lemma interpolateHermiteSorted_r_eq:
  assumes "length y = length x" and "length d = length x" and "2 \<le> length x"
  shows "interpolateHermiteSorted_r rnd x y d =
           Inr (map (\<lambda>i. Some (hermite_row_r rnd x y d i)) [0 ..< length x - 1])"
proof -
  let ?size = "length x - 1"
  let ?P = "\<lambda>k (st :: number list \<times> number list option list). (fst st = [] \<or> length (fst st) = 4) \<and>
     snd st = map (\<lambda>j. if j < k then Some (hermite_row_r rnd x y d j) else None) [0 ..< ?size]"
  have "?P ?size (for_loop 0 ?size (hermite_body_r rnd x y d) ([], replicate ?size None))"
  proof (rule for_loop_invariant [where P = ?P])
    show "?P 0 ([], replicate ?size None)"
      by (auto intro: nth_equalityI)
    show "0 \<le> ?size" by simp
  next
    fix k t assume k: "0 \<le> k" "k < ?size" and t: "?P k t"
    have step: "hermite_body_r rnd x y d k t =
        (hermite_row_r rnd x y d k, store None (snd t) k (Some (hermite_row_r rnd x y d k)))"
      using t k assms by (intro hermite_body_r_eq) auto
    have len: "length (snd t) = ?size" using t by simp
    have nth: "snd t ! j = (if j < k then Some (hermite_row_r rnd x y d j) else None)"
      if "j < ?size" for j
      using t that by simp
    have "store None (snd t) k (Some (hermite_row_r rnd x y d k)) =
          map (\<lambda>j. if j < Suc k then Some (hermite_row_r rnd x y d j) else None) [0 ..< ?size]"
    proof (rule nth_equalityI)
      show "length (store None (snd t) k (Some (hermite_row_r rnd x y d k))) =
            length (map (\<lambda>j. if j < Suc k then Some (hermite_row_r rnd x y d j) else None)
                      [0 ..< ?size])"
        using k len by (simp add: store_in)
    next
      fix j assume "j < length (store None (snd t) k (Some (hermite_row_r rnd x y d k)))"
      then have j: "j < ?size" using k len by (simp add: store_in)
      show "store None (snd t) k (Some (hermite_row_r rnd x y d k)) ! j =
            map (\<lambda>j. if j < Suc k then Some (hermite_row_r rnd x y d j) else None) [0 ..< ?size] ! j"
        using j k len nth [OF j] by (auto simp: store_in nth_list_update less_Suc_eq)
    qed
    then show "?P (Suc k) (hermite_body_r rnd x y d k t)"
      by (simp add: step hermite_row_r_def Let_def)
  qed
  then have "snd (for_loop 0 ?size (hermite_body_r rnd x y d) ([], replicate ?size None)) =
       map (\<lambda>i. Some (hermite_row_r rnd x y d i)) [0 ..< ?size]"
    by (simp cong: map_cong)
  then show ?thesis
    using assms by (simp add: interpolateHermiteSorted_r_def Let_def)
qed

lemma interpolate_r_eq:
  assumes "length y = length x" and "5 \<le> length x"
  shows "interpolate_r rnd (Some x) (Some y) =
           Inr (map (\<lambda>i. Some (hermite_row_r rnd x y (firstDerivatives_r rnd x y) i))
                  [0 ..< length x - 1])"
proof -
  obtain ordered where "checkOrder x None False False = Inr ordered"
    using checkOrder_defaults by blast
  moreover have "interpolateHermiteSorted_r rnd x y (firstDerivatives_r rnd x y) =
           Inr (map (\<lambda>i. Some (hermite_row_r rnd x y (firstDerivatives_r rnd x y) i))
                  [0 ..< length x - 1])"
    using assms by (intro interpolateHermiteSorted_r_eq) simp_all
  ultimately show ?thesis
    using assms by (simp add: interpolate_r_def MINIMUM_NUMBER_POINTS_def)
qed

section \<open>The rounded functions without rounding\<close>

text \<open>With the identity for the rounding, the rounded functions are the exact ones.\<close>

lemma evaluatePolynomial_for_r_id:
  "evaluatePolynomial_for_r (\<lambda>v. v) c x i v = evaluatePolynomial_for c x i v"
proof (induction c x i v rule: evaluatePolynomial_for.induct)
  case (1 c x i v)
  then show ?case
    by (subst evaluatePolynomial_for_r.simps, subst evaluatePolynomial_for.simps) simp
qed

lemma rounded_id:
  "evaluatePolynomial_r (\<lambda>v. v) = evaluatePolynomial"
  "evaluatePolynomialSegment_r (\<lambda>v. v) = evaluatePolynomialSegment"
  "differentiateThreePoint_r (\<lambda>v. v) = differentiateThreePoint"
  "interpolateHermiteSorted_r (\<lambda>v. v) = interpolateHermiteSorted"
  "firstDerivatives_r (\<lambda>v. v) = firstDerivatives"
  "interpolate_r (\<lambda>v. v) = interpolate"
  "createInterpolator_r (\<lambda>v. v) = createInterpolator"
  "call_r (\<lambda>v. v) = call"
proof -
  show p: "evaluatePolynomial_r (\<lambda>v. v) = evaluatePolynomial"
    by (intro ext; unfold evaluatePolynomial_r_def evaluatePolynomial_def evaluatePolynomial_for_r_id; (rule refl | simp add: Let_def))
  show s: "evaluatePolynomialSegment_r (\<lambda>v. v) = evaluatePolynomialSegment"
    by (intro ext; unfold evaluatePolynomialSegment_r_def evaluatePolynomialSegment_def p; (rule refl | simp add: Let_def))
  show t: "differentiateThreePoint_r (\<lambda>v. v) = differentiateThreePoint"
    by (intro ext; unfold differentiateThreePoint_r_def differentiateThreePoint_def; (rule refl | simp add: Let_def))
  have b: "hermite_body_r (\<lambda>v. v) = hermite_body"
    by (intro ext; unfold hermite_body_r_def hermite_body_def; (rule refl | simp add: Let_def))
  show h: "interpolateHermiteSorted_r (\<lambda>v. v) = interpolateHermiteSorted"
    by (intro ext; unfold interpolateHermiteSorted_r_def interpolateHermiteSorted_def b; (rule refl | simp add: Let_def))
  have d: "differences_r (\<lambda>v. v) = differences"
    by (intro ext; unfold differences_r_def differences_def; (rule refl | simp add: Let_def))
  have w: "weights_r (\<lambda>v. v) = weights"
    by (intro ext; unfold weights_r_def weights_def d; (rule refl | simp add: Let_def))
  have fb: "firstDerivatives_body_r (\<lambda>v. v) = firstDerivatives_body"
    by (intro ext; unfold firstDerivatives_body_r_def firstDerivatives_body_def; (rule refl | simp add: Let_def))
  show f: "firstDerivatives_r (\<lambda>v. v) = firstDerivatives"
    by (intro ext; unfold firstDerivatives_r_def firstDerivatives_def d w fb t; (rule refl | simp add: Let_def))
  show i: "interpolate_r (\<lambda>v. v) = interpolate"
    by (intro ext; unfold interpolate_r_def interpolate_def h f; (rule refl | simp add: Let_def))
  show "createInterpolator_r (\<lambda>v. v) = createInterpolator"
    by (intro ext; unfold createInterpolator_r_def createInterpolator_def i; (rule refl | simp add: Let_def))
  show "call_r (\<lambda>v. v) = call"
    by (intro ext; unfold call_r_def call_def s; (rule refl | simp add: Let_def))
qed

section \<open>Evaluation in binary64\<close>

lemma NaN_absorbs [simp]:
  "x + NaN = NaN" "NaN + x = NaN" "x - NaN = NaN" "NaN - x = NaN"
  "x * NaN = NaN" "NaN * x = NaN" "x / NaN = NaN" "NaN / x = NaN"
  by (cases x; simp add: minus_number_def)+

lemma minus_infinite [simp]:
  "Fin a - PInf = NInf" "Fin a - NInf = PInf" "PInf - Fin a = PInf" "NInf - Fin a = NInf"
  "PInf - PInf = NaN" "NInf - NInf = NaN" "PInf - NInf = PInf" "NInf - PInf = NInf"
  by (simp_all add: minus_number_def)

lemma evaluatePolynomial_r_cubic:
  "evaluatePolynomial_r rnd [c0, c1, c2, c3] t =
     rnd (rnd (t * rnd (rnd (t * rnd (rnd (t * c3) + c2)) + c1)) + c0)"
  by (simp add: evaluatePolynomial_r_def evaluatePolynomial_for_r.simps)

lemma interpolate_r_InrD:
  assumes "interpolate_r rnd (Some x) (Some y) = Inr coeffs"
  shows "length y = length x" and "5 \<le> length x"
    and "coeffs = map (\<lambda>i. Some (hermite_row_r rnd x y (firstDerivatives_r rnd x y) i))
                    [0 ..< length x - 1]"
proof -
  have g: "length y = length x \<and> 5 \<le> length x"
  proof (rule ccontr)
    assume "\<not> ?thesis"
    then have "\<exists>e. interpolate_r rnd (Some x) (Some y) = Inl e"
      by (auto simp: interpolate_r_def MINIMUM_NUMBER_POINTS_def)
    then show False using assms by auto
  qed
  then show "length y = length x" "5 \<le> length x" by simp_all
  with assms interpolate_r_eq [of y x rnd]
  show "coeffs = map (\<lambda>i. Some (hermite_row_r rnd x y (firstDerivatives_r rnd x y) i))
                    [0 ..< length x - 1]"
    by simp
qed

lemma createInterpolator_r_InrD:
  assumes "createInterpolator_r rnd h (Some rx) (Some ry) = Inr (h', f)"
  shows "h' = h\<lparr>cells := (cells h)(fresh h := cells h rx), fresh := Suc (fresh h)\<rparr>"
    and "xValsCopy f = fresh h"
    and "interpolate_r rnd (Some (cells h rx)) (Some (cells h ry)) = Inr (segmentCoeffs f)"
  using assms
  by (auto simp: createInterpolator_r_def slice0_def split: sum.splits)

lemma call_r_fitted:
  assumes "createInterpolator_r rnd h (Some rx) (Some ry) = Inr (h', f)"
  shows "call_r rnd h' f q = evaluatePolynomialSegment_r rnd (cells h rx) (segmentCoeffs f) q"
  using createInterpolator_r_InrD(1,2) [OF assms] by (simp add: call_r_def)

text \<open>
  The value of the fitted function at the knot \<open>i\<close>: Horner's scheme on the row of the
  segment that starts there, or of the last segment at the last knot, at the rounded
  offset.
\<close>

lemma call_r_knot:
  fixes xs :: "real list"
  assumes "createInterpolator_r rnd h (Some rx) (Some ry) = Inr (h', f)"
    and "cells h rx = map Fin xs"
    and "sorted_wrt (<) xs" and "length xs \<le> 2 ^ 31" and "i < length xs"
    and "k = min i (length xs - 2)"
    and "segmentCoeffs f ! k = Some [c0, c1, c2, c3]"
  shows "call_r rnd h' f (Fin (xs ! i)) =
     Some (Inr (evaluatePolynomial_r rnd [c0, c1, c2, c3] (rnd (Fin (xs ! i) - Fin (xs ! k)))))"
proof -
  note fit = createInterpolator_r_InrD [OF assms(1)]
  note tab = interpolate_r_InrD [OF fit(3)]
  have n: "5 \<le> length xs" using tab(2) assms(2) by simp
  have len: "length (segmentCoeffs f) = length xs - 1" using tab(3) assms(2) by simp
  have k: "k < length xs - 1" "k < length xs" using n assms(6) by auto
  have l: "int (length (segmentCoeffs f)) - 1 = int (length xs) - 2" using len n by simp
  have kr: "nat (min (int i) (int (length xs) - 2)) = k"
    "nat (max 0 (min (int i) (int (length xs) - 2))) = k"
    using n assms(5,6) by auto
  have "evaluatePolynomialSegment_r rnd (map Fin xs) (segmentCoeffs f) (Fin (xs ! i)) =
     Some (Inr (evaluatePolynomial_r rnd [c0, c1, c2, c3] (rnd (Fin (xs ! i) - Fin (xs ! k)))))"
    using k len assms(7)
    by (simp add: evaluatePolynomialSegment_r_def binarySearch_knot [OF assms(3,4,5)] Let_def
          l len kr del: minus_Fin)
  then show ?thesis
    by (simp only: call_r_fitted [OF assms(1)] assms(2))
qed

text \<open>Every derivative and every higher coefficient of the table is a binary64 number.\<close>

lemma differentiateThreePoint_r_rounded:
  "binary64 (differentiateThreePoint_r binary64 x y a b c d) =
     differentiateThreePoint_r binary64 x y a b c d"
  by (simp add: differentiateThreePoint_r_def Let_def binary64_idem)

lemma interior_r_rounded:
  "binary64 (interior_r binary64 x d w i) = interior_r binary64 x d w i"
  by (simp add: interior_r_def Let_def binary64_idem)

lemma firstDerivatives_r_rounded:
  assumes "5 \<le> length x" and "i < length x"
  shows "binary64 (firstDerivatives_r binary64 x y ! i) = firstDerivatives_r binary64 x y ! i"
proof -
  have n: "0 < length x" "1 < length x" "length x - 2 < length x" "length x - 1 < length x"
    using assms by auto
  show ?thesis
    unfolding firstDerivatives_r_eq [OF assms(1)] using n assms(2)
    by (simp add: nth_list_update differentiateThreePoint_r_rounded interior_r_rounded
          del: One_nat_def)
qed

lemma hermite_row_r_rounded:
  "binary64 (hermite_row_r binary64 x y d i ! 2) = hermite_row_r binary64 x y d i ! 2"
  "binary64 (hermite_row_r binary64 x y d i ! 3) = hermite_row_r binary64 x y d i ! 3"
  by (simp_all add: hermite_row_r_def Let_def binary64_idem)

lemma hermite_row_r_heads:
  "hermite_row_r rnd x y d i ! 0 = y ! i" "hermite_row_r rnd x y d i ! 1 = d ! i"
  by (simp_all add: hermite_row_r_def Let_def)


section \<open>Four fits in binary64\<close>

text \<open>
  The arrays that \<open>interpolate\<close> computes in binary64 on the README's example and on the
  three inputs above, value by value: the secant slopes, the weights, the first
  derivatives and the table.
\<close>

lemma readme64_lengths:
  "length readme_xvals = 8" "length readme_yvals = 8" "length readme_yvals = length readme_xvals"
  "5 \<le> length readme_xvals" "2 \<le> length readme_xvals"
  by (simp_all add: readme_xvals_def readme_yvals_def)

lemma readme64_differences:
  "differences_r binary64 readme_xvals readme_yvals =
     [Fin (- 3), Fin (3152519739159347 / 4503599627370496),
      Fin (2476979795053773 / 1125899906842624), Fin 6,
      Fin (4728779608739021 / 2251799813685248), Fin (- 9), Fin (- 2)]"
  by (simp add: differences_r_eq readme_xvals_def readme_yvals_def upt_conv_Cons b64)

lemma readme64_weights:
  "weights_r binary64 readme_xvals readme_yvals =
     [NaN, Fin (4165829655317709 / 1125899906842624), Fin (6755399441055745 / 4503599627370496),
      Fin (4278419646001971 / 1125899906842624), Fin (8782019273372467 / 2251799813685248),
      Fin (6248744482976563 / 562949953421312), Fin 7]"
  unfolding weights_r_eq [of readme_xvals, simplified readme64_lengths, simplified] readme64_differences
  by (simp add: readme_xvals_def upt_conv_Cons b64)

lemma readme64_firstDerivatives:
  "firstDerivatives_r binary64 readme_xvals readme_yvals =
     [Fin (- (2730307274093363 / 562949953421312)),
      Fin (- (1294784892869017 / 1125899906842624)), Fin (6485183463413515 / 4503599627370496),
      Fin (3665429696720987 / 1125899906842624), Fin (704443079298011 / 140737488355328),
      Fin (- (4214377632952207 / 2251799813685248)), Fin (- (11 / 2)), Fin (3 / 2)]"
  unfolding firstDerivatives_r_eq [of readme_xvals, simplified readme64_lengths, simplified]
    readme64_differences readme64_weights
  by (simp add: readme_xvals_def readme_yvals_def upt_conv_Cons interior_r_def differentiateThreePoint_r_def
        EPSILON_def b64)

lemma readme64_table:
  "interpolate_r binary64 (Some readme_xvals) (Some readme_yvals) = Inr
     [Some [Fin 40, Fin (- (2730307274093363 / 562949953421312)),
            Fin (3332663724254165 / 18014398509481984),
            Fin (5764607523034235 / 649037107316853453566312041152512)],
      Some [Fin 10, Fin (- (1294784892869017 / 1125899906842624)),
            Fin (666532744850833 / 2251799813685248),
            Fin (- (1599678587641999 / 144115188075855872))],
      Some [Fin 17, Fin (6485183463413515 / 4503599627370496),
            Fin (6693349846189741 / 144115188075855872),
            Fin (3407523558060237 / 1152921504606846976)],
      Some [Fin 39, Fin (3665429696720987 / 1125899906842624),
            Fin (729979429534117 / 1125899906842624),
            Fin (- (5388575425288207 / 144115188075855872))],
      Some [Fin 99, Fin (704443079298011 / 140737488355328),
            Fin (- (6626339325387333 / 36028797018963968)),
            Fin (- (6146169809054907 / 576460752303423488))],
      Some [Fin 120, Fin (- (4214377632952207 / 2251799813685248)),
            Fin (- (7996988145665683 / 4503599627370496)),
            Fin (7658598412196285 / 72057594037927936)],
      Some [Fin 30, Fin (- (11 / 2)), Fin (3152519739159347 / 9007199254740992), Fin 0]]"
  unfolding interpolate_r_eq [of readme_yvals readme_xvals, simplified readme64_lengths, simplified]
    readme64_firstDerivatives
  by (simp add: readme_xvals_def readme_yvals_def upt_conv_Cons hermite_row_r_def b64)

lemma overflow64_lengths:
  "length overflow_xvals = 5" "length overflow_yvals = 5" "length overflow_yvals = length overflow_xvals"
  "5 \<le> length overflow_xvals" "2 \<le> length overflow_xvals"
  by (simp_all add: overflow_xvals_def overflow_yvals_def)

lemma overflow64_differences:
  "differences_r binary64 overflow_xvals overflow_yvals =
     [Fin big, Fin (- big), Fin big, Fin (- big)]"
  by (simp add: differences_r_eq overflow_xvals_def overflow_yvals_def upt_conv_Cons b64 big_def)

lemma overflow64_weights:
  "weights_r binary64 overflow_xvals overflow_yvals =
     [NaN, Fin (2 * big), Fin (2 * big), Fin (2 * big)]"
  unfolding weights_r_eq [of overflow_xvals, simplified overflow64_lengths, simplified] overflow64_differences
  by (simp add: overflow_xvals_def upt_conv_Cons b64 big_def)

lemma overflow64_firstDerivatives:
  "firstDerivatives_r binary64 overflow_xvals overflow_yvals =
     [Fin (2 * big), Fin 0, NaN, Fin 0, Fin (- 2 * big)]"
  unfolding firstDerivatives_r_eq [of overflow_xvals, simplified overflow64_lengths, simplified]
    overflow64_differences overflow64_weights
  by (simp add: overflow_xvals_def overflow_yvals_def upt_conv_Cons interior_r_def differentiateThreePoint_r_def
        EPSILON_def b64 big_def)

lemma overflow64_table:
  "interpolate_r binary64 (Some overflow_xvals) (Some overflow_yvals) = Inr
     [Some [Fin 0, Fin (2 * big), Fin (- big), Fin 0],
      Some [Fin big, Fin 0, NaN, NaN],
      Some [Fin 0, NaN, NaN, NaN],
      Some [Fin big, Fin 0, Fin (- big), Fin 0]]"
  unfolding interpolate_r_eq [of overflow_yvals overflow_xvals, simplified overflow64_lengths, simplified]
    overflow64_firstDerivatives
  by (simp add: overflow_xvals_def overflow_yvals_def upt_conv_Cons hermite_row_r_def b64 big_def)






lemma close64_lengths:
  "length close_xvals = 6" "length close_yvals = 6" "length close_yvals = length close_xvals"
  "5 \<le> length close_xvals" "2 \<le> length close_xvals"
  by (simp_all add: close_xvals_def close_yvals_def)

lemma close64_differences:
  "differences_r binary64 close_xvals close_yvals =
     [Fin 1, Fin (- 1), Fin 0, Fin 2251799813685248,
      Fin (- (4503599627370497 / 9007199254740992))]"
  by (simp add: differences_r_eq close_xvals_def close_yvals_def upt_conv_Cons b64)

lemma close64_weights:
  "weights_r binary64 close_xvals close_yvals =
     [NaN, Fin 2, Fin 1, Fin 2251799813685248, Fin (4503599627370497 / 2)]"
  unfolding weights_r_eq [of close_xvals, simplified close64_lengths, simplified] close64_differences
  by (simp add: close_xvals_def upt_conv_Cons b64)

lemma close64_firstDerivatives:
  "firstDerivatives_r binary64 close_xvals close_yvals =
     [Fin 2, Fin 0, Fin (- (1125899906842623 / 1125899906842624)),
      Fin (4503599627370493 / 4503599627370496), Fin (4503599627370495 / 2),
      Fin (- (4503599627370497 / 2))]"
  unfolding firstDerivatives_r_eq [of close_xvals, simplified close64_lengths, simplified]
    close64_differences close64_weights
  by (simp add: close_xvals_def close_yvals_def upt_conv_Cons interior_r_def differentiateThreePoint_r_def
        EPSILON_def b64)

lemma close64_table:
  "interpolate_r binary64 (Some close_xvals) (Some close_yvals) = Inr
     [Some [Fin 0, Fin 2, Fin (- 1), Fin 0],
      Some [Fin 1, Fin 0, Fin (- (2251799813685249 / 1125899906842624)),
            Fin (1125899906842625 / 1125899906842624)],
      Some [Fin 0, Fin (- (1125899906842623 / 1125899906842624)),
            Fin (4503599627370491 / 4503599627370496), Fin (1 / 4503599627370496)],
      Some [Fin 0, Fin (4503599627370493 / 4503599627370496),
            Fin 10141204801825831834273905115136,
            Fin (- 11417981541647676513165087299137158097655562240)],
      Some [Fin 1, Fin (4503599627370495 / 2), Fin (- (2251799813685249 / 2)), Fin 0]]"
  unfolding interpolate_r_eq [of close_yvals close_xvals, simplified close64_lengths, simplified]
    close64_firstDerivatives
  by (simp add: close_xvals_def close_yvals_def upt_conv_Cons hermite_row_r_def b64)

text \<open>The functions fitted to them, at some knots.\<close>

lemma fit64_eq:
  assumes "interpolate_r binary64 (Some x) (Some y) = Inr t"
  shows "createInterpolator_r binary64 (two_arrays x y) (Some 0) (Some 1) =
           Inr (fst (fit64 x y), snd (fit64 x y))"
    and "segmentCoeffs (snd (fit64 x y)) = t"
    and "table64 x y = t"
    and "cells (two_arrays x y) 0 = x"
    and "cells (two_arrays x y) 1 = y"
  by (simp_all add: fit64_def table64_def createInterpolator_r_def two_arrays_def slice0_def assms)

lemma readme64_first:
  "call_r binary64 (fst (fit64 readme_xvals readme_yvals)) (snd (fit64 readme_xvals readme_yvals)) (Fin 10) = Some (Inr (Fin 40))"
proof -
  note fit = fit64_eq [OF readme64_table]
  have x: "cells (two_arrays readme_xvals readme_yvals) 0 = map Fin [10, 20, 30, 40, 50, 60, 70, 80 :: real]"
    unfolding fit(4) by (simp add: readme_xvals_def)
  have s: "sorted_wrt (<) [10, 20, 30, 40, 50, 60, 70, 80 :: real]" "length [10, 20, 30, 40, 50, 60, 70, 80 :: real] \<le> 2 ^ 31"
    "(0::nat) < length [10, 20, 30, 40, 50, 60, 70, 80 :: real]" "(0::nat) = min 0 (length [10, 20, 30, 40, 50, 60, 70, 80 :: real] - 2)"
    by simp_all
  have r: "segmentCoeffs (snd (fit64 readme_xvals readme_yvals)) ! 0 =
      Some [Fin 40, Fin (- (2730307274093363 / 562949953421312)),
            Fin (3332663724254165 / 18014398509481984),
            Fin (5764607523034235 / 649037107316853453566312041152512)]"
    by (simp add: fit(2))
  from call_r_knot [OF fit(1) x s r] show ?thesis
    by (simp add: evaluatePolynomial_r_cubic b64)
qed

lemma readme64_last:
  "call_r binary64 (fst (fit64 readme_xvals readme_yvals)) (snd (fit64 readme_xvals readme_yvals)) (Fin 80) = Some (Inr (Fin 10))"
proof -
  note fit = fit64_eq [OF readme64_table]
  have x: "cells (two_arrays readme_xvals readme_yvals) 0 = map Fin [10, 20, 30, 40, 50, 60, 70, 80 :: real]"
    unfolding fit(4) by (simp add: readme_xvals_def)
  have s: "sorted_wrt (<) [10, 20, 30, 40, 50, 60, 70, 80 :: real]" "length [10, 20, 30, 40, 50, 60, 70, 80 :: real] \<le> 2 ^ 31"
    "(7::nat) < length [10, 20, 30, 40, 50, 60, 70, 80 :: real]" "(6::nat) = min 7 (length [10, 20, 30, 40, 50, 60, 70, 80 :: real] - 2)"
    by simp_all
  have r: "segmentCoeffs (snd (fit64 readme_xvals readme_yvals)) ! 6 =
      Some [Fin 30, Fin (- (11 / 2)), Fin (3152519739159347 / 9007199254740992), Fin 0]"
    by (simp add: fit(2))
  from call_r_knot [OF fit(1) x s r] show ?thesis
    by (simp add: evaluatePolynomial_r_cubic b64)
qed

lemma overflow64_knot_1:
  "call_r binary64 (fst (fit64 overflow_xvals overflow_yvals)) (snd (fit64 overflow_xvals overflow_yvals)) (Fin 1) = Some (Inr (NaN))"
proof -
  note fit = fit64_eq [OF overflow64_table]
  have x: "cells (two_arrays overflow_xvals overflow_yvals) 0 = map Fin [0, 1, 2, 3, 4 :: real]"
    unfolding fit(4) by (simp add: overflow_xvals_def)
  have s: "sorted_wrt (<) [0, 1, 2, 3, 4 :: real]" "length [0, 1, 2, 3, 4 :: real] \<le> 2 ^ 31"
    "(1::nat) < length [0, 1, 2, 3, 4 :: real]" "(1::nat) = min 1 (length [0, 1, 2, 3, 4 :: real] - 2)"
    by simp_all
  have r: "segmentCoeffs (snd (fit64 overflow_xvals overflow_yvals)) ! 1 =
      Some [Fin big, Fin 0, NaN, NaN]"
    by (simp add: fit(2))
  from call_r_knot [OF fit(1) x s r] show ?thesis
    by (simp add: evaluatePolynomial_r_cubic b64 big_def)
qed

lemma overflow64_knot_2:
  "call_r binary64 (fst (fit64 overflow_xvals overflow_yvals)) (snd (fit64 overflow_xvals overflow_yvals)) (Fin 2) = Some (Inr (NaN))"
proof -
  note fit = fit64_eq [OF overflow64_table]
  have x: "cells (two_arrays overflow_xvals overflow_yvals) 0 = map Fin [0, 1, 2, 3, 4 :: real]"
    unfolding fit(4) by (simp add: overflow_xvals_def)
  have s: "sorted_wrt (<) [0, 1, 2, 3, 4 :: real]" "length [0, 1, 2, 3, 4 :: real] \<le> 2 ^ 31"
    "(2::nat) < length [0, 1, 2, 3, 4 :: real]" "(2::nat) = min 2 (length [0, 1, 2, 3, 4 :: real] - 2)"
    by simp_all
  have r: "segmentCoeffs (snd (fit64 overflow_xvals overflow_yvals)) ! 2 =
      Some [Fin 0, NaN, NaN, NaN]"
    by (simp add: fit(2))
  from call_r_knot [OF fit(1) x s r] show ?thesis
    by (simp add: evaluatePolynomial_r_cubic b64 big_def)
qed

lemma close64_last:
  "call_r binary64 (fst (fit64 close_xvals close_yvals)) (snd (fit64 close_xvals close_yvals)) (Fin 5) = Some (Inr (Fin (- (2251799813685247 / 2251799813685248))))"
proof -
  note fit = fit64_eq [OF close64_table]
  have x: "cells (two_arrays close_xvals close_yvals) 0 = map Fin [0, 1, 2, 3, (6755399441055745 / 2251799813685248), 5 :: real]"
    unfolding fit(4) by (simp add: close_xvals_def)
  have s: "sorted_wrt (<) [0, 1, 2, 3, (6755399441055745 / 2251799813685248), 5 :: real]" "length [0, 1, 2, 3, (6755399441055745 / 2251799813685248), 5 :: real] \<le> 2 ^ 31"
    "(5::nat) < length [0, 1, 2, 3, (6755399441055745 / 2251799813685248), 5 :: real]" "(4::nat) = min 5 (length [0, 1, 2, 3, (6755399441055745 / 2251799813685248), 5 :: real] - 2)"
    by simp_all
  have r: "segmentCoeffs (snd (fit64 close_xvals close_yvals)) ! 4 =
      Some [Fin 1, Fin (4503599627370495 / 2), Fin (- (2251799813685249 / 2)), Fin 0]"
    by (simp add: fit(2))
  from call_r_knot [OF fit(1) x s r] show ?thesis
    by (simp add: evaluatePolynomial_r_cubic b64)
qed

section \<open>Knot values in binary64\<close>

text \<open>
  Claim C2, as amended. In binary64, after a fit on strictly increasing finite knots (at
  most \<open>2\<^sup>3\<^sup>1\<close>), the returned function gives exactly \<open>y[i]\<close> at every knot \<open>x[i]\<close> but
  the last, provided that \<open>y[i]\<close> is a binary64 number and that the coefficients of
  segment \<open>i\<close> are finite.
\<close>

theorem evaluate_reproduces_knot_values:
  fixes xs ys :: "real list"
  assumes "createInterpolator_r binary64 h (Some rx) (Some ry) = Inr (h', f)"
    and "cells h rx = map Fin xs" and "cells h ry = map Fin ys"
    and "sorted_wrt (<) xs" and "length xs \<le> 2 ^ 31" and "Suc i < length xs"
    and "binary64 (Fin (ys ! i)) = Fin (ys ! i)"
    and "segmentCoeffs f ! i = Some [c0, Fin c1, Fin c2, Fin c3]"
  shows "call_r binary64 h' f (Fin (xs ! i)) = Some (Inr (Fin (ys ! i)))"
proof -
  let ?x = "map Fin xs" and ?y = "map Fin ys"
  let ?d = "firstDerivatives_r binary64 ?x ?y"
  note fit = createInterpolator_r_InrD [OF assms(1)]
  note tab = interpolate_r_InrD [OF fit(3)]
  have n: "5 \<le> length xs" and ly: "length ys = length xs"
    using tab(1,2) assms(2,3) by simp_all
  have i: "i < length xs - 1" "i < length xs" "min i (length xs - 2) = i"
    using assms(6) by simp_all
  have "segmentCoeffs f ! i = Some (hermite_row_r binary64 ?x ?y ?d i)"
    using tab(3) i by (simp add: assms(2,3))
  with assms(8) have r: "hermite_row_r binary64 ?x ?y ?d i = [c0, Fin c1, Fin c2, Fin c3]"
    by simp
  have c0: "c0 = Fin (ys ! i)"
    using hermite_row_r_heads(1) [of binary64 ?x ?y ?d i] i ly by (simp add: r)
  have "?d ! i = Fin c1"
    using hermite_row_r_heads(2) [of binary64 ?x ?y ?d i] by (simp add: r)
  with firstDerivatives_r_rounded [of ?x i ?y] n i
  have c1: "binary64 (Fin c1) = Fin c1" by simp
  have c2: "binary64 (Fin c2) = Fin c2"
    using hermite_row_r_rounded(1) [of ?x ?y ?d i] by (simp add: r)
  note v = call_r_knot [OF assms(1,2,4,5) i(2) i(3) [symmetric] assms(8)]
  show ?thesis
    unfolding v evaluatePolynomial_r_cubic
    by (simp add: c0 c1 c2 assms(7))
qed

theorem evaluate_reproduces_knot_values_witness:
  "createInterpolator_r binary64 (two_arrays readme_xvals readme_yvals) (Some 0) (Some 1) =
     Inr (fst (fit64 readme_xvals readme_yvals), snd (fit64 readme_xvals readme_yvals))
   \<and> call_r binary64 (fst (fit64 readme_xvals readme_yvals)) (snd (fit64 readme_xvals readme_yvals)) (Fin 10) = Some (Inr (Fin 40))
   \<and> call_r binary64 (fst (fit64 readme_xvals readme_yvals)) (snd (fit64 readme_xvals readme_yvals)) (Fin 80) = Some (Inr (Fin 10))
   \<and> segmentCoeffs (snd (fit64 readme_xvals readme_yvals)) =
     [Some [Fin 40, Fin (- (2730307274093363 / 562949953421312)),
            Fin (3332663724254165 / 18014398509481984),
            Fin (5764607523034235 / 649037107316853453566312041152512)],
      Some [Fin 10, Fin (- (1294784892869017 / 1125899906842624)),
            Fin (666532744850833 / 2251799813685248),
            Fin (- (1599678587641999 / 144115188075855872))],
      Some [Fin 17, Fin (6485183463413515 / 4503599627370496),
            Fin (6693349846189741 / 144115188075855872),
            Fin (3407523558060237 / 1152921504606846976)],
      Some [Fin 39, Fin (3665429696720987 / 1125899906842624),
            Fin (729979429534117 / 1125899906842624),
            Fin (- (5388575425288207 / 144115188075855872))],
      Some [Fin 99, Fin (704443079298011 / 140737488355328),
            Fin (- (6626339325387333 / 36028797018963968)),
            Fin (- (6146169809054907 / 576460752303423488))],
      Some [Fin 120, Fin (- (4214377632952207 / 2251799813685248)),
            Fin (- (7996988145665683 / 4503599627370496)),
            Fin (7658598412196285 / 72057594037927936)],
      Some [Fin 30, Fin (- (11 / 2)), Fin (3152519739159347 / 9007199254740992), Fin 0]]"
proof -
  note fit = fit64_eq [OF readme64_table]
  have x: "cells (two_arrays readme_xvals readme_yvals) 0 = map Fin [10, 20, 30, 40, 50, 60, 70, 80 :: real]"
    unfolding fit(4) by (simp add: readme_xvals_def)
  have y: "cells (two_arrays readme_xvals readme_yvals) 1 = map Fin [40, 10, 17, 39, 99, 120, 30, 10 :: real]"
    unfolding fit(5) by (simp add: readme_yvals_def)
  have s: "sorted_wrt (<) [10, 20, 30, 40, 50, 60, 70, 80 :: real]" "length [10, 20, 30, 40, 50, 60, 70, 80 :: real] \<le> 2 ^ 31"
    "Suc 0 < length [10, 20, 30, 40, 50, 60, 70, 80 :: real]"
    by simp_all
  have b: "binary64 (Fin ([40, 10, 17, 39, 99, 120, 30, 10 :: real] ! 0)) = Fin ([40, 10, 17, 39, 99, 120, 30, 10 :: real] ! 0)"
    by (simp add: b64)
  have r: "segmentCoeffs (snd (fit64 readme_xvals readme_yvals)) ! 0 =
      Some [Fin 40, Fin (- (2730307274093363 / 562949953421312)),
            Fin (3332663724254165 / 18014398509481984),
            Fin (5764607523034235 / 649037107316853453566312041152512)]"
    by (simp add: fit(2))
  from evaluate_reproduces_knot_values [OF fit(1) x y s b r]
  have "call_r binary64 (fst (fit64 readme_xvals readme_yvals)) (snd (fit64 readme_xvals readme_yvals)) (Fin 10) = Some (Inr (Fin 40))"
    by simp
  then show ?thesis
    using fit(1,2) readme64_last by simp
qed

text \<open>
  Claim C2 as stated fails in binary64. On the knots \<open>0, 1, 2, 3, 4\<close> with the values
  \<open>0, 2\<^sup>6\<^sup>0\<^sup>0, 0, 2\<^sup>6\<^sup>0\<^sup>0, 0\<close> the fit succeeds, the products \<open>2\<^sup>6\<^sup>0\<^sup>1 \<cdot> 2\<^sup>6\<^sup>0\<^sup>0\<close> overflow
  and the fitted function returns \<open>NaN\<close> at the knots 1 and 2. On the knots
  \<open>0, 1, 2, 3, 3 + 2\<^sup>-\<^sup>5\<^sup>1, 5\<close> with the values \<open>0, 1, 0, 0, 1, 0\<close> every coefficient is
  finite and the fitted function returns \<open>-1 + 2\<^sup>-\<^sup>5\<^sup>1\<close> at the last knot, where the value
  is 0.
\<close>

theorem evaluate_misses_knot_values_in_binary64:
  "sorted_wrt (<) overflow_xvals
   \<and> createInterpolator_r binary64 (two_arrays overflow_xvals overflow_yvals) (Some 0) (Some 1) =
       Inr (fst (fit64 overflow_xvals overflow_yvals), snd (fit64 overflow_xvals overflow_yvals))
   \<and> overflow_xvals ! 1 = Fin 1 \<and> overflow_yvals ! 1 = Fin (2 ^ 600)
   \<and> call_r binary64 (fst (fit64 overflow_xvals overflow_yvals)) (snd (fit64 overflow_xvals overflow_yvals)) (Fin 1) = Some (Inr NaN)
   \<and> overflow_xvals ! 2 = Fin 2 \<and> overflow_yvals ! 2 = Fin 0
   \<and> call_r binary64 (fst (fit64 overflow_xvals overflow_yvals)) (snd (fit64 overflow_xvals overflow_yvals)) (Fin 2) = Some (Inr NaN)
   \<and> sorted_wrt (<) close_xvals
   \<and> createInterpolator_r binary64 (two_arrays close_xvals close_yvals) (Some 0) (Some 1) =
       Inr (fst (fit64 close_xvals close_yvals), snd (fit64 close_xvals close_yvals))
   \<and> close_xvals ! 5 = Fin 5 \<and> close_yvals ! 5 = Fin 0
   \<and> call_r binary64 (fst (fit64 close_xvals close_yvals)) (snd (fit64 close_xvals close_yvals)) (Fin 5) =
       Some (Inr (Fin (- (2251799813685247 / 2251799813685248))))"
  using fit64_eq(1) [OF overflow64_table] fit64_eq(1) [OF close64_table]
    overflow64_knot_1 overflow64_knot_2 close64_last
  by (simp add: overflow_xvals_def overflow_yvals_def close_xvals_def close_yvals_def big_def)

section \<open>Segments in binary64\<close>




end
